theory Spec2Isabelle
  imports
    Main
    "HOL-Library.Word"
    "HOL-Library.Multiset"
    "HOL-Library.Sublist"
    "HOL-Library.Char_ord"
    "HOL-Library.List_Lexorder"
begin

unbundle bit_operations_syntax

section \<open>Byte strings and the library functions the sources call\<close>

text \<open>
  A Go \<^verbatim>\<open>string\<close> and a Go \<^verbatim>\<open>[]byte\<close> are both sequences of 8-bit bytes, and the
  sources convert freely between them (\<^verbatim>\<open>[]byte(perms)\<close>, \<^verbatim>\<open>[]byte(result)\<close>).
  An Isabelle \<^typ>\<open>char\<close> is exactly one byte, so both are modelled as \<^typ>\<open>string\<close>.
  Go compares strings byte-wise and lexicographically; that is the order of
  \<^typ>\<open>char list\<close> given by \<open>Char_ord\<close> and \<open>List_Lexorder\<close>.

  The functions of this section belong to Go's standard library (\<^verbatim>\<open>fmt\<close>,
  \<^verbatim>\<open>strings\<close>, \<^verbatim>\<open>encoding/hex\<close>, \<^verbatim>\<open>crypto/sha1\<close>, \<^verbatim>\<open>sort\<close>,
  \<^verbatim>\<open>net/url\<close>, \<^verbatim>\<open>regexp\<close>); they are not part of the repository, and are
  written here after the library's own code and documentation.
\<close>

type_synonym bytes = string

definition NUL :: char where
  "NUL = char_of (0::nat)"

subsection \<open>\<^verbatim>\<open>fmt.Sprintf("%d", n)\<close>\<close>

definition digit :: "nat \<Rightarrow> char" where
  "digit n = ''0123456789'' ! n"

fun decimal :: "nat \<Rightarrow> string" where
  "decimal n = (if n < 10 then [digit n] else decimal (n div 10) @ [digit (n mod 10)])"

declare decimal.simps [simp del]

definition Itoa :: "int \<Rightarrow> string" where
  "Itoa i = (if i < 0 then CHR ''-'' # decimal (nat (- i)) else decimal (nat i))"

subsection \<open>\<^verbatim>\<open>strings.Split\<close>, \<^verbatim>\<open>strings.Join\<close>, \<^verbatim>\<open>strings.Index\<close>, \<^verbatim>\<open>strings.ReplaceAll\<close>\<close>

text \<open>
  The sources only split on, search for and replace one-byte separators.
  \<^verbatim>\<open>strings.Split\<close> of the empty string is the one-element list holding the empty
  string, so the result is never empty (lemma \<open>Split_not_Nil\<close>) and the second case
  of the \<open>case\<close> below is never taken.
\<close>

fun Split :: "string \<Rightarrow> char \<Rightarrow> string list" where
  "Split [] sep = [[]]"
| "Split (c # cs) sep =
     (if c = sep then [] # Split cs sep
      else (case Split cs sep of x # xs \<Rightarrow> (c # x) # xs | [] \<Rightarrow> [[c]]))"

fun Join :: "string list \<Rightarrow> string \<Rightarrow> string" where
  "Join [] sep = []"
| "Join [x] sep = x"
| "Join (x # y # ys) sep = x @ sep @ Join (y # ys) sep"

text \<open>\<^verbatim>\<open>strings.Index(s, "c")\<close>: the position of the first \<open>c\<close>, or \<open>-1\<close>.\<close>

definition Index :: "string \<Rightarrow> char \<Rightarrow> int" where
  "Index s c = (if c \<in> set s then int (length (takeWhile (\<lambda>x. x \<noteq> c) s)) else - 1)"

definition ReplaceAll :: "string \<Rightarrow> char \<Rightarrow> string \<Rightarrow> string" where
  "ReplaceAll s old new = concat (map (\<lambda>x. if x = old then new else [x]) s)"

subsection \<open>\<^verbatim>\<open>encoding/hex\<close>\<close>

definition hexdigit :: "nat \<Rightarrow> char" where
  "hexdigit n = ''0123456789abcdef'' ! n"

definition hex_EncodeToString :: "bytes \<Rightarrow> string" where
  "hex_EncodeToString bs =
     concat (map (\<lambda>c. [hexdigit (of_char c div 16), hexdigit (of_char c mod 16)]) bs)"

text \<open>
  \<^verbatim>\<open>hex.DecodeString\<close> accepts both cases of the letters. On an invalid byte or an odd
  length it returns the bytes decoded before the error together with the error.
\<close>

definition fromHexChar :: "char \<Rightarrow> nat option" where
  "fromHexChar c =
     (let n = (of_char c :: nat) in
      if 48 \<le> n \<and> n \<le> 57 then Some (n - 48)
      else if 97 \<le> n \<and> n \<le> 102 then Some (n - 97 + 10)
      else if 65 \<le> n \<and> n \<le> 70 then Some (n - 65 + 10)
      else None)"

datatype hex_error = InvalidByteError char | ErrLength

fun hex_DecodeString :: "string \<Rightarrow> bytes \<times> hex_error option" where
  "hex_DecodeString [] = ([], None)"
| "hex_DecodeString [p] =
     (case fromHexChar p of
        None \<Rightarrow> ([], Some (InvalidByteError p))
      | Some a \<Rightarrow> ([], Some ErrLength))"
| "hex_DecodeString (p # q # rest) =
     (case fromHexChar p of
        None \<Rightarrow> ([], Some (InvalidByteError p))
      | Some a \<Rightarrow>
          (case fromHexChar q of
             None \<Rightarrow> ([], Some (InvalidByteError q))
           | Some b \<Rightarrow>
               (case hex_DecodeString rest of
                  (bs, err) \<Rightarrow> (char_of (a * 16 + b) # bs, err))))"

subsection \<open>\<^verbatim>\<open>crypto/sha1\<close>\<close>

text \<open>
  The hash primitive, \<^verbatim>\<open>crypto/sha1\<close> in the sources' imports, is SHA-1 of
  FIPS 180-4. The definitions follow the library's \<^verbatim>\<open>blockGeneric\<close> and
  \<^verbatim>\<open>checkSum\<close>. A \<^verbatim>\<open>uint32\<close> is an \<^typ>\<open>int\<close> in \<open>[0, 2\<^sup>3\<^sup>2)\<close>, with the
  wrap-around written out by \<open>u32\<close>.
\<close>

type_synonym uint32 = int

definition u32 :: "int \<Rightarrow> uint32" where
  "u32 x = x mod 4294967296"

definition RotateLeft32 :: "uint32 \<Rightarrow> nat \<Rightarrow> uint32" where
  "RotateLeft32 x n = u32 (push_bit n x) OR drop_bit (32 - n) x"

definition be32 :: "char \<Rightarrow> char \<Rightarrow> char \<Rightarrow> char \<Rightarrow> uint32" where
  "be32 a b c d =
     push_bit 24 (of_char a) OR push_bit 16 (of_char b) OR push_bit 8 (of_char c) OR of_char d"

fun block_words :: "bytes \<Rightarrow> uint32 list" where
  "block_words (a # b # c # d # rest) = be32 a b c d # block_words rest"
| "block_words _ = []"

text \<open>
  The message schedule, newest word first: word \<open>t\<close> is
  \<open>rotl 1 (w\<^bsub>t-3\<^esub> XOR w\<^bsub>t-8\<^esub> XOR w\<^bsub>t-14\<^esub> XOR w\<^bsub>t-16\<^esub>)\<close>.
\<close>

fun schedule :: "nat \<Rightarrow> uint32 list \<Rightarrow> uint32 list" where
  "schedule 0 ws = ws"
| "schedule (Suc n) ws =
     schedule n (RotateLeft32 (ws ! 2 XOR ws ! 7 XOR ws ! 13 XOR ws ! 15) 1 # ws)"

definition sha1_f :: "nat \<Rightarrow> uint32 \<Rightarrow> uint32 \<Rightarrow> uint32 \<Rightarrow> uint32" where
  "sha1_f i b c d =
     (if i < 20 then (b AND c) OR (u32 (NOT b) AND d)
      else if i < 40 then b XOR c XOR d
      else if i < 60 then ((b OR c) AND d) OR (b AND c)
      else b XOR c XOR d)"

definition sha1_K :: "nat \<Rightarrow> uint32" where
  "sha1_K i =
     (if i < 20 then 0x5A827999 else if i < 40 then 0x6ED9EBA1
      else if i < 60 then 0x8F1BBCDC else 0xCA62C1D6)"

type_synonym sha1_state = "uint32 \<times> uint32 \<times> uint32 \<times> uint32 \<times> uint32"

fun rounds :: "nat \<Rightarrow> uint32 list \<Rightarrow> sha1_state \<Rightarrow> sha1_state" where
  "rounds i [] s = s"
| "rounds i (w # ws) (a, b, c, d, e) =
     rounds (Suc i) ws
       (u32 (RotateLeft32 a 5 + sha1_f i b c d + e + w + sha1_K i),
        a, RotateLeft32 b 30, c, d)"

definition block :: "sha1_state \<Rightarrow> bytes \<Rightarrow> sha1_state" where
  "block h p =
     (case h of (h0, h1, h2, h3, h4) \<Rightarrow>
        (case rounds 0 (rev (schedule 64 (rev (block_words p)))) h of
           (a, b, c, d, e) \<Rightarrow>
             (u32 (h0 + a), u32 (h1 + b), u32 (h2 + c), u32 (h3 + d), u32 (h4 + e))))"

fun blocks :: "nat \<Rightarrow> sha1_state \<Rightarrow> bytes \<Rightarrow> sha1_state" where
  "blocks 0 h p = h"
| "blocks (Suc n) h p = blocks n (block h (take 64 p)) (drop 64 p)"

definition sha1_init :: sha1_state where
  "sha1_init = (0x67452301, 0xEFCDAB89, 0x98BADCFE, 0x10325476, 0xC3D2E1F0)"

definition PutUint64 :: "int \<Rightarrow> bytes" where
  "PutUint64 n = map (\<lambda>i. char_of (drop_bit (8 * i) n)) [7, 6, 5, 4, 3, 2, 1, 0]"

definition PutUint32 :: "uint32 \<Rightarrow> bytes" where
  "PutUint32 w = map (\<lambda>i. char_of (drop_bit (8 * i) w)) [3, 2, 1, 0]"

text \<open>
  \<^verbatim>\<open>checkSum\<close>: one byte \<open>0x80\<close>, zero bytes up to 56 modulo 64, then the length in
  bits as a big-endian \<^verbatim>\<open>uint64\<close>.
\<close>

definition padding :: "nat \<Rightarrow> bytes" where
  "padding len =
     (let t = (if len mod 64 < 56 then 56 - len mod 64 else 64 + 56 - len mod 64)
      in char_of (0x80::nat) # replicate (t - 1) NUL
         @ PutUint64 (push_bit 3 (int len) mod 18446744073709551616))"

definition sha1_Sum :: "bytes \<Rightarrow> bytes" where
  "sha1_Sum msg =
     (let p = msg @ padding (length msg)
      in case blocks (length p div 64) sha1_init p of
           (h0, h1, h2, h3, h4) \<Rightarrow> concat (map PutUint32 [h0, h1, h2, h3, h4]))"

subsection \<open>\<^verbatim>\<open>sort.Slice\<close>\<close>

text \<open>
  \<^verbatim>\<open>sort.Slice\<close> sorts in place by the given \<open>less\<close> function (here \<open>lt\<close>); it is
  documented as not stable. For slices of at most 12 elements the library runs the
  insertion sort below (\<^verbatim>\<open>insertionSortLessFunc\<close>): element \<open>i\<close> is swapped to the
  left while it is \<open>less\<close> than its left neighbour. \<open>sift\<close> is that inner loop on the
  already sorted prefix, which it takes and returns nearest element first.

  Longer slices go through the library's pattern-defeating quicksort, which is not
  written out here. It returns a permutation sorted by \<open>less\<close> as well, so it agrees
  with the insertion sort whenever elements with equal keys are equal (lemma
  \<open>sort_Slice_any_sort\<close> below); on more than 12 elements it may leave different
  elements with equal keys in another order than the insertion sort does. The
  statements below about lists of any length therefore either assume that elements
  with equal keys are equal or do not depend on the order of such elements.
\<close>

fun sift :: "('a \<Rightarrow> 'a \<Rightarrow> bool) \<Rightarrow> 'a \<Rightarrow> 'a list \<Rightarrow> 'a list" where
  "sift lt x [] = [x]"
| "sift lt x (p # ps) = (if lt x p then p # sift lt x ps else x # p # ps)"

fun insertionSort :: "('a \<Rightarrow> 'a \<Rightarrow> bool) \<Rightarrow> 'a list \<Rightarrow> 'a list \<Rightarrow> 'a list" where
  "insertionSort lt ps [] = rev ps"
| "insertionSort lt ps (x # xs) = insertionSort lt (sift lt x ps) xs"

definition sort_Slice :: "('a \<Rightarrow> 'a \<Rightarrow> bool) \<Rightarrow> 'a list \<Rightarrow> 'a list" where
  "sort_Slice lt xs = insertionSort lt [] xs"

section \<open>Content\<close>

text \<open>\<^verbatim>\<open>objects/content.go\<close>: the Git blob hash, \<^verbatim>\<open>"blob <size>\0<content>"\<close>.\<close>

definition ComputeContentHash :: "bytes \<Rightarrow> string" where
  "ComputeContentHash data =
     (let header = ''blob '' @ Itoa (int (length data)) @ [NUL]
      in hex_EncodeToString (sha1_Sum (header @ data)))"

section \<open>Directory\<close>

text \<open>\<^verbatim>\<open>objects/directory.go\<close>. \<^verbatim>\<open>EntryType\<close> is a Go \<^verbatim>\<open>int\<close> with five named values.\<close>

type_synonym EntryType = int

definition EntryTypeFile :: EntryType where "EntryTypeFile = 0"
definition EntryTypeExecutable :: EntryType where "EntryTypeExecutable = 1"
definition EntryTypeDirectory :: EntryType where "EntryTypeDirectory = 2"
definition EntryTypeSymlink :: EntryType where "EntryTypeSymlink = 3"
definition EntryTypeRevision :: EntryType where "EntryTypeRevision = 4"

record DirectoryEntry =
  Name :: string
  Type :: EntryType
  Target :: string
  Perms :: string

definition DefaultPerms :: "DirectoryEntry \<Rightarrow> string" where
  "DefaultPerms e =
     (if Type e = EntryTypeDirectory then ''40000''
      else if Type e = EntryTypeFile then ''100644''
      else if Type e = EntryTypeExecutable then ''100755''
      else if Type e = EntryTypeSymlink then ''120000''
      else if Type e = EntryTypeRevision then ''160000''
      else ''100644'')"

definition Permissions :: "DirectoryEntry \<Rightarrow> string" where
  "Permissions e = (if Perms e \<noteq> [] then Perms e else DefaultPerms e)"

definition SortKey :: "DirectoryEntry \<Rightarrow> string" where
  "SortKey e = (if Type e = EntryTypeDirectory then Name e @ ''/'' else Name e)"

text \<open>
  The body of the loop of \<^verbatim>\<open>serializeEntries\<close>: \<^verbatim>\<open>"<perms> <name>\0<binary_hash>"\<close>.
  The error of \<^verbatim>\<open>hex.DecodeString\<close> is discarded (\<^verbatim>\<open>hashBytes, _ :=\<close>).
\<close>

definition appendEntry :: "bytes \<Rightarrow> DirectoryEntry \<Rightarrow> bytes" where
  "appendEntry result entry =
     (let perms = Permissions entry;
          result = result @ perms;
          result = result @ [CHR '' ''];
          result = result @ Name entry;
          result = result @ [NUL];
          hashBytes = fst (hex_DecodeString (Target entry))
      in result @ hashBytes)"

definition serializeEntries :: "DirectoryEntry list \<Rightarrow> bytes" where
  "serializeEntries entries =
     (let sorted = sort_Slice (\<lambda>a b. SortKey a < SortKey b) entries
      in foldl appendEntry [] sorted)"

definition ComputeDirectoryHash :: "DirectoryEntry list \<Rightarrow> string" where
  "ComputeDirectoryHash entries =
     (let serialized = serializeEntries entries;
          header = ''tree '' @ Itoa (int (length serialized)) @ [NUL]
      in hex_EncodeToString (sha1_Sum (header @ serialized)))"

section \<open>Snapshot\<close>

text \<open>\<^verbatim>\<open>objects/snapshot.go\<close>. \<^verbatim>\<open>BranchTargetType\<close> is a Go \<^verbatim>\<open>string\<close>.\<close>

type_synonym BranchTargetType = string

definition BranchTargetContent :: BranchTargetType where "BranchTargetContent = ''content''"
definition BranchTargetDirectory :: BranchTargetType where "BranchTargetDirectory = ''directory''"
definition BranchTargetRevision :: BranchTargetType where "BranchTargetRevision = ''revision''"
definition BranchTargetRelease :: BranchTargetType where "BranchTargetRelease = ''release''"
definition BranchTargetSnapshot :: BranchTargetType where "BranchTargetSnapshot = ''snapshot''"
definition BranchTargetAlias :: BranchTargetType where "BranchTargetAlias = ''alias''"
definition BranchTargetDangling :: BranchTargetType where "BranchTargetDangling = ''dangling''"

record Branch =
  BranchName :: string
  TargetType :: BranchTargetType
  BranchTarget :: string

definition computeTargetIdentifier :: "Branch \<Rightarrow> bytes" where
  "computeTargetIdentifier branch =
     (if TargetType branch \<in> {BranchTargetContent, BranchTargetDirectory, BranchTargetRevision,
                               BranchTargetRelease, BranchTargetSnapshot}
      then fst (hex_DecodeString (BranchTarget branch))
      else if TargetType branch = BranchTargetAlias then BranchTarget branch
      else if TargetType branch = BranchTargetDangling then []
      else [])"

definition serializeBranch :: "Branch \<Rightarrow> bytes" where
  "serializeBranch branch =
     (let targetIdentifier = computeTargetIdentifier branch;
          targetLength = length targetIdentifier
      in TargetType branch @ [CHR '' ''] @ BranchName branch @ [NUL]
         @ (Itoa (int targetLength) @ '':'') @ targetIdentifier)"

definition serializeBranches :: "Branch list \<Rightarrow> bytes" where
  "serializeBranches branches =
     (let sorted = sort_Slice (\<lambda>a b. BranchName a < BranchName b) branches
      in foldl (\<lambda>result branch. result @ serializeBranch branch) [] sorted)"

definition ComputeSnapshotHash :: "Branch list \<Rightarrow> string" where
  "ComputeSnapshotHash branches =
     (let serialized = serializeBranches branches;
          header = ''snapshot '' @ Itoa (int (length serialized)) @ [NUL]
      in hex_EncodeToString (sha1_Sum (header @ serialized)))"

section \<open>Revision\<close>

text \<open>The revision encoder. Timestamps are Go \<^verbatim>\<open>int64\<close> values, printed with \<^verbatim>\<open>%d\<close>.\<close>

record RevisionMetadata =
  Directory :: string
  Parents :: "string list"
  Author :: string
  AuthorTimestamp :: "64 word"
  AuthorTimezone :: string
  Committer :: string
  CommitterTimestamp :: "64 word"
  CommitterTimezone :: string
  Message :: string
  ExtraHeaders :: "(string \<times> string) list"

definition escapeNewlines :: "string \<Rightarrow> string" where
  "escapeNewlines s = ReplaceAll s CHR ''\<newline>'' [CHR ''\<newline>'', CHR '' '']"

definition formatHeaderLine :: "string \<Rightarrow> string \<Rightarrow> string" where
  "formatHeaderLine key v = (let valueEscaped = escapeNewlines v in key @ '' '' @ valueEscaped)"

definition serializeRevision :: "RevisionMetadata \<Rightarrow> bytes" where
  "serializeRevision meta =
     (let lines = [];
          lines = lines @ [''tree '' @ Directory meta];
          lines = lines @ map (\<lambda>parent. ''parent '' @ parent) (Parents meta);
          authorTz = AuthorTimezone meta;
          authorTz = (if authorTz = [] then ''+0000'' else authorTz);
          authorEscaped = escapeNewlines (Author meta);
          lines = lines @ [''author '' @ authorEscaped @ '' ''
                           @ Itoa (sint (AuthorTimestamp meta)) @ '' '' @ authorTz];
          committerTz = CommitterTimezone meta;
          committerTz = (if committerTz = [] then ''+0000'' else committerTz);
          committerEscaped = escapeNewlines (Committer meta);
          lines = lines @ [''committer '' @ committerEscaped @ '' ''
                           @ Itoa (sint (CommitterTimestamp meta)) @ '' '' @ committerTz];
          lines = lines @ map (\<lambda>header. formatHeaderLine (fst header) (snd header))
                            (ExtraHeaders meta);
          result = Join lines [CHR ''\<newline>''] @ [CHR ''\<newline>'']
      in if Message meta \<noteq> [] then result @ [CHR ''\<newline>''] @ Message meta else result)"

definition ComputeRevisionHash :: "RevisionMetadata \<Rightarrow> string" where
  "ComputeRevisionHash meta =
     (let serialized = serializeRevision meta;
          header = ''commit '' @ Itoa (int (length serialized)) @ [NUL]
      in hex_EncodeToString (sha1_Sum (header @ serialized)))"

section \<open>Release\<close>

type_synonym TargetType = string

definition TargetTypeContent :: TargetType where "TargetTypeContent = ''cnt''"
definition TargetTypeDirectory :: TargetType where "TargetTypeDirectory = ''dir''"
definition TargetTypeRevision :: TargetType where "TargetTypeRevision = ''rev''"
definition TargetTypeRelease :: TargetType where "TargetTypeRelease = ''rel''"
definition TargetTypeSnapshot :: TargetType where "TargetTypeSnapshot = ''snp''"

record ReleaseTarget =
  Hash :: string
  ReleaseTargetType :: TargetType

definition GitType :: "ReleaseTarget \<Rightarrow> string" where
  "GitType t =
     (if ReleaseTargetType t = TargetTypeContent then ''blob''
      else if ReleaseTargetType t = TargetTypeDirectory then ''tree''
      else if ReleaseTargetType t = TargetTypeRevision then ''commit''
      else if ReleaseTargetType t = TargetTypeRelease then ''tag''
      else if ReleaseTargetType t = TargetTypeSnapshot then ''snapshot''
      else ''commit'')"

record ReleaseMetadata =
  ReleaseName :: string
  ReleaseTarget :: ReleaseTarget
  ReleaseAuthor :: string
  ReleaseAuthorTimestamp :: "64 word"
  ReleaseAuthorTimezone :: string
  ReleaseMessage :: string
  ReleaseExtraHeaders :: "(string \<times> string) list"

text \<open>The header lines of a release, the value of \<^verbatim>\<open>lines\<close> before the join.\<close>

definition releaseLines :: "ReleaseMetadata \<Rightarrow> string list" where
  "releaseLines meta =
     (let lines = [];
          lines = lines @ [''object '' @ Hash (ReleaseTarget meta)];
          lines = lines @ [''type '' @ GitType (ReleaseTarget meta)];
          nameEscaped = escapeNewlines (ReleaseName meta);
          lines = lines @ [''tag '' @ nameEscaped];
          lines = (if ReleaseAuthor meta \<noteq> [] then
                     (let tz = ReleaseAuthorTimezone meta;
                          tz = (if tz = [] then ''+0000'' else tz);
                          authorEscaped = escapeNewlines (ReleaseAuthor meta)
                      in lines @ [''tagger '' @ authorEscaped @ '' ''
                                  @ Itoa (sint (ReleaseAuthorTimestamp meta)) @ '' '' @ tz])
                   else lines)
      in lines @ map (\<lambda>header. formatHeaderLine (fst header) (snd header))
                     (ReleaseExtraHeaders meta))"

definition serializeRelease :: "ReleaseMetadata \<Rightarrow> bytes" where
  "serializeRelease meta =
     (let lines = releaseLines meta;
          result = Join lines [CHR ''\<newline>''] @ [CHR ''\<newline>'']
      in if ReleaseMessage meta \<noteq> [] then result @ [CHR ''\<newline>''] @ ReleaseMessage meta
         else result)"

definition ComputeReleaseHash :: "ReleaseMetadata \<Rightarrow> string" where
  "ComputeReleaseHash meta =
     (let serialized = serializeRelease meta;
          header = ''tag '' @ Itoa (int (length serialized)) @ [NUL]
      in hex_EncodeToString (sha1_Sum (header @ serialized)))"

section \<open>Identifier\<close>

subsection \<open>\<^verbatim>\<open>url.QueryUnescape\<close> and \<^verbatim>\<open>regexp\<close>\<close>

text \<open>
  \<^verbatim>\<open>url.QueryUnescape\<close> first checks that every \<open>%\<close> is followed by two hexadecimal
  digits (else it returns an \<^verbatim>\<open>EscapeError\<close> holding the offending bytes), then decodes:
  \<open>%XY\<close> becomes the byte \<open>XY\<close>, \<open>+\<close> becomes a space, any other byte is kept.
\<close>

definition ishex :: "char \<Rightarrow> bool" where
  "ishex c = (fromHexChar c \<noteq> None)"

definition unhex :: "char \<Rightarrow> nat" where
  "unhex c = (case fromHexChar c of Some n \<Rightarrow> n | None \<Rightarrow> 0)"

datatype url_error = EscapeError string

fun unescape_check :: "string \<Rightarrow> url_error option" where
  "unescape_check [] = None"
| "unescape_check (c # cs) =
     (if c = CHR ''%'' then
        (case cs of
           a # b # rest \<Rightarrow>
             if ishex a \<and> ishex b then unescape_check rest
             else Some (EscapeError (take 3 (c # cs)))
         | _ \<Rightarrow> Some (EscapeError (take 3 (c # cs))))
      else unescape_check cs)"

text \<open>The second pass runs only after the check, so a \<open>%\<close> always has its two digits.\<close>

fun unescape_build :: "string \<Rightarrow> string" where
  "unescape_build [] = []"
| "unescape_build (c # cs) =
     (if c = CHR ''%'' then
        (case cs of
           a # b # rest \<Rightarrow> char_of (unhex a * 16 + unhex b) # unescape_build rest
         | _ \<Rightarrow> [])
      else if c = CHR ''+'' then CHR '' '' # unescape_build cs
      else c # unescape_build cs)"

definition QueryUnescape :: "string \<Rightarrow> url_error + string" where
  "QueryUnescape s =
     (case unescape_check s of Some err \<Rightarrow> Inl err | None \<Rightarrow> Inr (unescape_build s))"

text \<open>\<^verbatim>\<open>regexp.MustCompile(`^[0-9a-f]{40}$`).MatchString\<close>; in Go \<open>$\<close> is the end of the text.\<close>

definition hashRegex_MatchString :: "string \<Rightarrow> bool" where
  "hashRegex_MatchString s = (length s = 40 \<and> list_all (\<lambda>c. c \<in> set ''0123456789abcdef'') s)"

subsection \<open>The identifier and its parser\<close>

definition Scheme :: string where "Scheme = ''swh''"
definition SchemeVersion :: int where "SchemeVersion = 1"
definition ObjectIDLen :: int where "ObjectIDLen = 40"

type_synonym ObjectType = string

definition ObjectTypeContent :: ObjectType where "ObjectTypeContent = ''cnt''"
definition ObjectTypeDirectory :: ObjectType where "ObjectTypeDirectory = ''dir''"
definition ObjectTypeRevision :: ObjectType where "ObjectTypeRevision = ''rev''"
definition ObjectTypeRelease :: ObjectType where "ObjectTypeRelease = ''rel''"
definition ObjectTypeSnapshot :: ObjectType where "ObjectTypeSnapshot = ''snp''"

text \<open>A Go \<^verbatim>\<open>map[ObjectType]bool\<close>; reading a missing key gives \<^verbatim>\<open>false\<close>.\<close>

definition validObjectTypes :: "ObjectType \<rightharpoonup> bool" where
  "validObjectTypes =
     [ObjectTypeContent \<mapsto> True, ObjectTypeDirectory \<mapsto> True, ObjectTypeRevision \<mapsto> True,
      ObjectTypeRelease \<mapsto> True, ObjectTypeSnapshot \<mapsto> True]"

definition lookup_bool :: "('k \<rightharpoonup> bool) \<Rightarrow> 'k \<Rightarrow> bool" where
  "lookup_bool m k = (case m k of Some b \<Rightarrow> b | None \<Rightarrow> False)"

definition canonicalQualifierOrder :: "string list" where
  "canonicalQualifierOrder = [''origin'', ''visit'', ''anchor'', ''path'', ''lines'', ''bytes'']"

datatype error =
    ErrEmptySWHID
  | ErrInvalidFormat
  | ErrInvalidScheme string
  | ErrInvalidVersion string
  | ErrInvalidObjectType string
  | ErrInvalidObjectHash

record Identifier =
  IdScheme :: string
  IdVersion :: int
  ObjectType :: ObjectType
  ObjectHash :: string
  Qualifiers :: "string \<rightharpoonup> string"

definition encodeQualifierValue :: "string \<Rightarrow> string" where
  "encodeQualifierValue v =
     (let v = ReplaceAll v CHR ''%'' ''%25'';
          v = ReplaceAll v CHR '';'' ''%3B''
      in v)"

definition decodeQualifierValue :: "string \<Rightarrow> string" where
  "decodeQualifierValue v =
     (case QueryUnescape v of Inl err \<Rightarrow> v | Inr decoded \<Rightarrow> decoded)"

text \<open>The loop of \<^verbatim>\<open>Parse\<close> over the qualifier segments, with the map it fills.\<close>

fun parseQualifiers :: "(string \<rightharpoonup> string) \<Rightarrow> string list \<Rightarrow> (string \<rightharpoonup> string)" where
  "parseQualifiers qualifiers [] = qualifiers"
| "parseQualifiers qualifiers (part # rest) =
     (if part = [] then parseQualifiers qualifiers rest
      else
        (let idx = Index part CHR ''=''
         in if idx = - 1 then parseQualifiers qualifiers rest
            else
              (let key = take (nat idx) part;
                   v = drop (nat (idx + 1)) part
               in parseQualifiers (qualifiers(key \<mapsto> decodeQualifierValue v)) rest)))"

definition Parse :: "string \<Rightarrow> error + Identifier" where
  "Parse swhidString =
     (if swhidString = [] then Inl ErrEmptySWHID
      else
        (let parts = Split swhidString CHR '';'';
             corePart = parts ! 0;
             qualifierParts = drop 1 parts;
             coreParts = Split corePart CHR '':''
         in if length coreParts \<noteq> 4 then Inl ErrInvalidFormat
            else
              (let scheme = coreParts ! 0;
                   versionStr = coreParts ! 1;
                   objectType = coreParts ! 2;
                   objectHash = coreParts ! 3
               in if scheme \<noteq> Scheme then Inl (ErrInvalidScheme scheme)
                  else if versionStr \<noteq> ''1'' then Inl (ErrInvalidVersion versionStr)
                  else if \<not> lookup_bool validObjectTypes objectType
                    then Inl (ErrInvalidObjectType objectType)
                  else if \<not> hashRegex_MatchString objectHash then Inl ErrInvalidObjectHash
                  else Inr \<lparr>IdScheme = Scheme, IdVersion = SchemeVersion,
                            ObjectType = objectType, ObjectHash = objectHash,
                            Qualifiers = parseQualifiers Map.empty qualifierParts\<rparr>)))"

subsection \<open>Formatting\<close>

text \<open>
  Go visits the entries of a map in an order the runtime chooses anew for every
  \<^verbatim>\<open>range\<close>. The order is an argument of the model: \<open>range_order m kvs\<close> says that
  the list \<open>kvs\<close> visits every entry of the map \<open>m\<close> exactly once.
\<close>

definition range_order :: "(string \<rightharpoonup> string) \<Rightarrow> (string \<times> string) list \<Rightarrow> bool" where
  "range_order m kvs \<longleftrightarrow> distinct (map fst kvs) \<and> map_of kvs = m"

definition formatQualifiers :: "(string \<rightharpoonup> string) \<Rightarrow> (string \<times> string) list \<Rightarrow> string" where
  "formatQualifiers quals kvs =
     (let parts = concat (map (\<lambda>key. case quals key of
                                        Some v \<Rightarrow> [key @ ''='' @ encodeQualifierValue v]
                                      | None \<Rightarrow> [])
                              canonicalQualifierOrder);
          parts = parts @ concat (map (\<lambda>(key, v).
                                         if key \<notin> set canonicalQualifierOrder
                                         then [key @ ''='' @ encodeQualifierValue v] else [])
                                      kvs)
      in Join parts '';'')"

definition CoreSWHID :: "Identifier \<Rightarrow> string" where
  "CoreSWHID ident = IdScheme ident @ '':'' @ Itoa (IdVersion ident) @ '':'' @ ObjectType ident
                  @ '':'' @ ObjectHash ident"

text \<open>\<^verbatim>\<open>String\<close>, given the order \<open>kvs\<close> in which \<^verbatim>\<open>range\<close> visits the qualifiers.\<close>

definition String :: "Identifier \<Rightarrow> (string \<times> string) list \<Rightarrow> string" where
  "String ident kvs =
     (let core = CoreSWHID ident
      in if Qualifiers ident = Map.empty then core
         else core @ '';'' @ formatQualifiers (Qualifiers ident) kvs)"

section \<open>Predicates used by the statements\<close>

text \<open>
  A qualifier segment \<open>key=value\<close>: the key is what stands before the first \<open>=\<close>,
  the value what follows it.
\<close>

definition key_value_segment :: "string \<Rightarrow> bool" where
  "key_value_segment seg \<longleftrightarrow> CHR ''='' \<in> set seg"

definition segment_key :: "string \<Rightarrow> string" where
  "segment_key seg = takeWhile (\<lambda>c. c \<noteq> CHR ''='') seg"

definition segment_value :: "string \<Rightarrow> string" where
  "segment_value seg = drop 1 (dropWhile (\<lambda>c. c \<noteq> CHR ''='') seg)"

text \<open>
  The decoded value of the last \<open>key=value\<close> segment, from left to right, whose key
  is \<open>k\<close>, if there is one.
\<close>

definition last_value :: "string \<Rightarrow> string list \<Rightarrow> string option" where
  "last_value k segs =
     (let hits = filter (\<lambda>seg. key_value_segment seg \<and> segment_key seg = k) segs
      in if hits = [] then None
         else Some (decodeQualifierValue (segment_value (last hits))))"

text \<open>
  A value written with the escaped character set only: every \<open>%\<close> starts \<open>%25\<close> or
  \<open>%3B\<close>, and the value has no \<open>;\<close> and no \<open>+\<close> of its own.
\<close>

fun escaped_only :: "string \<Rightarrow> bool" where
  "escaped_only [] = True"
| "escaped_only (c # cs) =
     (if c = CHR ''%'' then
        (case cs of
           a # b # rest \<Rightarrow>
             ((a = CHR ''2'' \<and> b = CHR ''5'') \<or> (a = CHR ''3'' \<and> b = CHR ''B''))
             \<and> escaped_only rest
         | _ \<Rightarrow> False)
      else c \<noteq> CHR ''+'' \<and> c \<noteq> CHR '';'' \<and> escaped_only cs)"

text \<open>
  Keys in canonical order: first keys of the canonical list, each at most once and in
  the order of that list, then at most one key that is not in the list.
\<close>

definition canonical_key_order :: "string list \<Rightarrow> bool" where
  "canonical_key_order ks \<longleftrightarrow>
     subseq (takeWhile (\<lambda>k. k \<in> set canonicalQualifierOrder) ks) canonicalQualifierOrder
     \<and> length (dropWhile (\<lambda>k. k \<in> set canonicalQualifierOrder) ks) \<le> 1"

definition canonical_qualifiers :: "string list \<Rightarrow> bool" where
  "canonical_qualifiers segs \<longleftrightarrow>
     list_all key_value_segment segs
     \<and> canonical_key_order (map segment_key segs)
     \<and> list_all (\<lambda>seg. escaped_only (segment_value seg)) segs"

text \<open>A \<open>key=value\<close> segment as \<^verbatim>\<open>String\<close> writes it after \<^verbatim>\<open>Parse\<close> has read it.\<close>

definition render :: "string \<Rightarrow> string" where
  "render seg = segment_key seg @ ''='' @ encodeQualifierValue (decodeQualifierValue (segment_value seg))"

text \<open>No line of a text, split at the newlines, begins with \<open>tagger\<close>.\<close>

definition tagger_free :: "string \<Rightarrow> bool" where
  "tagger_free text \<longleftrightarrow> (\<forall>l \<in> set (Split text CHR ''\<newline>''). \<not> prefix ''tagger'' l)"

section \<open>Fixed digests\<close>

text \<open>
  C5: on empty inputs the encoders return the well-known digests: the content hash of
  the empty byte sequence is \<open>e69de29bb2d1d6434b8b29ae775ad8c2e48c5391\<close>, the directory
  hash of the empty entry list is \<open>4b825dc642cb6eb9a060e54bf8d69288fbee4904\<close>, and the
  snapshot hash of the empty branch list is \<open>1a8893e6a86f444e8be8e7bda6cb34fb1735a00e\<close>.
\<close>

theorem empty_digests:
  "ComputeContentHash [] = ''e69de29bb2d1d6434b8b29ae775ad8c2e48c5391''
   \<and> ComputeDirectoryHash [] = ''4b825dc642cb6eb9a060e54bf8d69288fbee4904''
   \<and> ComputeSnapshotHash [] = ''1a8893e6a86f444e8be8e7bda6cb34fb1735a00e''"
  by code_simp

text \<open>
  C4: the directory hash of the single file entry \<open>hello.txt\<close> whose target is
  \<open>ce013625030ba8dba906f756967f9e9ca394464a\<close> is
  \<open>aaa96ced2d9a1c8e72c56b253a0e2fe78393feb7\<close>; the target is the content hash of the
  six bytes \<open>hello\<close>, newline.
\<close>

theorem hello_directory_digest:
  "ComputeDirectoryHash
     [\<lparr>Name = ''hello.txt'', Type = EntryTypeFile,
       Target = ''ce013625030ba8dba906f756967f9e9ca394464a'', Perms = []\<rparr>]
     = ''aaa96ced2d9a1c8e72c56b253a0e2fe78393feb7''
   \<and> ComputeContentHash ''hello\<newline>'' = ''ce013625030ba8dba906f756967f9e9ca394464a''"
  by code_simp

section \<open>Sorting\<close>

text \<open>
  The insertion sort returns a permutation of its input, sorted by the key. A list
  in which elements with equal keys are equal has only one sorted permutation, so on
  such a list every sorting procedure returns what the insertion sort returns.
\<close>

lemma mset_sift: "mset (sift lt x ps) = add_mset x (mset ps)"
  by (induction ps) auto

lemma mset_insertionSort: "mset (insertionSort lt ps xs) = mset ps + mset xs"
  by (induction xs arbitrary: ps) (auto simp: mset_sift)

lemma mset_sort_Slice: "mset (sort_Slice lt xs) = mset xs"
  by (simp add: sort_Slice_def mset_insertionSort)

lemma set_sift: "set (sift lt x ps) = insert x (set ps)"
  by (induction ps) auto

lemma sorted_sift:
  fixes key :: "'a \<Rightarrow> 'k::linorder"
  assumes "sorted (map key (rev ps))"
  shows "sorted (map key (rev (sift (\<lambda>a b. key a < key b) x ps)))"
  using assms
proof (induction ps)
  case Nil
  then show ?case by simp
next
  case (Cons p ps)
  then show ?case
    by (auto simp: sorted_append set_sift)
qed

lemma sorted_insertionSort:
  fixes key :: "'a \<Rightarrow> 'k::linorder"
  assumes "sorted (map key (rev ps))"
  shows "sorted (map key (insertionSort (\<lambda>a b. key a < key b) ps xs))"
  using assms
  by (induction xs arbitrary: ps) (auto simp: sorted_sift)

lemma sorted_sort_Slice:
  fixes key :: "'a \<Rightarrow> 'k::linorder"
  shows "sorted (map key (sort_Slice (\<lambda>a b. key a < key b) xs))"
  by (simp add: sort_Slice_def sorted_insertionSort)

lemma sorted_perm_unique:
  fixes key :: "'a \<Rightarrow> 'k::linorder"
  assumes "sorted (map key ys)" "sorted (map key zs)" "mset ys = mset zs"
    and "inj_on key (set ys)"
  shows "ys = zs"
  using assms
proof (induction ys arbitrary: zs)
  case Nil
  then show ?case by simp
next
  case (Cons y ys)
  from Cons.prems(3) obtain z zs' where zs: "zs = z # zs'"
    by (cases zs) auto
  have sets: "set (y # ys) = set zs"
    using Cons.prems(3) by (metis set_mset_mset)
  have "z \<in> set (y # ys)" using sets zs by simp
  then have 1: "key y \<le> key z" using Cons.prems(1) by auto
  have "y \<in> set (z # zs')" using sets zs by auto
  then have 2: "key z \<le> key y" using Cons.prems(2) zs by auto
  have "key y = key z" using 1 2 by simp
  then have yz: "y = z"
    using Cons.prems(4) \<open>z \<in> set (y # ys)\<close> by (auto dest: inj_onD)
  then have "mset ys = mset zs'" using Cons.prems(3) zs by simp
  moreover have "inj_on key (set ys)" using Cons.prems(4) by (simp add: inj_on_def)
  moreover have "sorted (map key ys)" using Cons.prems(1) by simp
  moreover have "sorted (map key zs')" using Cons.prems(2) zs by simp
  ultimately have "ys = zs'"
    by (intro Cons.IH)
  with yz zs show ?case by blast
qed

lemma sort_Slice_perm:
  fixes key :: "'a \<Rightarrow> 'k::linorder"
  assumes "mset xs' = mset xs" "inj_on key (set xs)"
  shows "sort_Slice (\<lambda>a b. key a < key b) xs' = sort_Slice (\<lambda>a b. key a < key b) xs"
proof (rule sorted_perm_unique[where key = key])
  show "sorted (map key (sort_Slice (\<lambda>a b. key a < key b) xs'))" by (rule sorted_sort_Slice)
  show "sorted (map key (sort_Slice (\<lambda>a b. key a < key b) xs))" by (rule sorted_sort_Slice)
  show "mset (sort_Slice (\<lambda>a b. key a < key b) xs') = mset (sort_Slice (\<lambda>a b. key a < key b) xs)"
    using assms(1) by (simp add: mset_sort_Slice)
  have "set (sort_Slice (\<lambda>a b. key a < key b) xs') = set xs"
    by (metis assms(1) mset_sort_Slice set_mset_mset)
  then show "inj_on key (set (sort_Slice (\<lambda>a b. key a < key b) xs'))"
    using assms(2) by simp
qed

lemma sort_Slice_any_sort:
  fixes key :: "'a \<Rightarrow> 'k::linorder"
  assumes "mset ys = mset xs" "sorted (map key ys)" "inj_on key (set xs)"
  shows "ys = sort_Slice (\<lambda>a b. key a < key b) xs"
proof (rule sorted_perm_unique[where key = key])
  show "sorted (map key ys)" by (rule assms(2))
  show "sorted (map key (sort_Slice (\<lambda>a b. key a < key b) xs))" by (rule sorted_sort_Slice)
  show "mset ys = mset (sort_Slice (\<lambda>a b. key a < key b) xs)"
    using assms(1) by (simp add: mset_sort_Slice)
  have "set ys = set xs" by (metis assms(1) set_mset_mset)
  then show "inj_on key (set ys)" using assms(3) by simp
qed

section \<open>Order invariance of the directory and snapshot digests\<close>

text \<open>
  C2 (as amended): for every list of directory entries in which two entries with
  the same sort key are the same entry, every permutation of the list has the same
  directory digest; likewise for every list of branches in which two branches
  with the same name are the same branch, every permutation has the same snapshot
  digest.
\<close>

theorem permutation_invariant_digests:
  "(mset entries' = mset entries \<longrightarrow> inj_on SortKey (set entries) \<longrightarrow>
      ComputeDirectoryHash entries' = ComputeDirectoryHash entries)
   \<and> (mset branches' = mset branches \<longrightarrow> inj_on BranchName (set branches) \<longrightarrow>
      ComputeSnapshotHash branches' = ComputeSnapshotHash branches)"
proof (intro conjI impI)
  assume "mset entries' = mset entries" "inj_on SortKey (set entries)"
  then have "sort_Slice (\<lambda>a b. SortKey a < SortKey b) entries'
             = sort_Slice (\<lambda>a b. SortKey a < SortKey b) entries"
    by (rule sort_Slice_perm)
  then show "ComputeDirectoryHash entries' = ComputeDirectoryHash entries"
    by (simp add: ComputeDirectoryHash_def serializeEntries_def)
next
  assume "mset branches' = mset branches" "inj_on BranchName (set branches)"
  then have "sort_Slice (\<lambda>a b. BranchName a < BranchName b) branches'
             = sort_Slice (\<lambda>a b. BranchName a < BranchName b) branches"
    by (rule sort_Slice_perm)
  then show "ComputeSnapshotHash branches' = ComputeSnapshotHash branches"
    by (simp add: ComputeSnapshotHash_def serializeBranches_def)
qed

text \<open>
  The lists of the repository's tests \<^verbatim>\<open>TestDirectoryEntrySorting\<close> and
  \<^verbatim>\<open>TestSnapshotBranchSorting\<close>, in two orders.
\<close>

theorem permutation_invariant_digests_witness:
  "mset [\<lparr>Name = ''m'', Type = EntryTypeDirectory, Target = ''4b825dc642cb6eb9a060e54bf8d69288fbee4904'', Perms = []\<rparr>,
         \<lparr>Name = ''a'', Type = EntryTypeFile, Target = ''e69de29bb2d1d6434b8b29ae775ad8c2e48c5391'', Perms = []\<rparr>]
   = mset [\<lparr>Name = ''a'', Type = EntryTypeFile, Target = ''e69de29bb2d1d6434b8b29ae775ad8c2e48c5391'', Perms = []\<rparr>,
           \<lparr>Name = ''m'', Type = EntryTypeDirectory, Target = ''4b825dc642cb6eb9a060e54bf8d69288fbee4904'', Perms = []\<rparr>]
   \<and> inj_on SortKey (set
          [\<lparr>Name = ''a'', Type = EntryTypeFile, Target = ''e69de29bb2d1d6434b8b29ae775ad8c2e48c5391'', Perms = []\<rparr>,
           \<lparr>Name = ''m'', Type = EntryTypeDirectory, Target = ''4b825dc642cb6eb9a060e54bf8d69288fbee4904'', Perms = []\<rparr>])
   \<and> ComputeDirectoryHash
        [\<lparr>Name = ''m'', Type = EntryTypeDirectory, Target = ''4b825dc642cb6eb9a060e54bf8d69288fbee4904'', Perms = []\<rparr>,
         \<lparr>Name = ''a'', Type = EntryTypeFile, Target = ''e69de29bb2d1d6434b8b29ae775ad8c2e48c5391'', Perms = []\<rparr>]
     = ComputeDirectoryHash
        [\<lparr>Name = ''a'', Type = EntryTypeFile, Target = ''e69de29bb2d1d6434b8b29ae775ad8c2e48c5391'', Perms = []\<rparr>,
         \<lparr>Name = ''m'', Type = EntryTypeDirectory, Target = ''4b825dc642cb6eb9a060e54bf8d69288fbee4904'', Perms = []\<rparr>]
   \<and> mset [\<lparr>BranchName = ''refs/heads/main'', TargetType = BranchTargetRevision, BranchTarget = ''4b825dc642cb6eb9a060e54bf8d69288fbee4904''\<rparr>,
           \<lparr>BranchName = ''refs/heads/dev'', TargetType = BranchTargetRevision, BranchTarget = ''4b825dc642cb6eb9a060e54bf8d69288fbee4904''\<rparr>]
     = mset [\<lparr>BranchName = ''refs/heads/dev'', TargetType = BranchTargetRevision, BranchTarget = ''4b825dc642cb6eb9a060e54bf8d69288fbee4904''\<rparr>,
             \<lparr>BranchName = ''refs/heads/main'', TargetType = BranchTargetRevision, BranchTarget = ''4b825dc642cb6eb9a060e54bf8d69288fbee4904''\<rparr>]
   \<and> inj_on BranchName (set
          [\<lparr>BranchName = ''refs/heads/dev'', TargetType = BranchTargetRevision, BranchTarget = ''4b825dc642cb6eb9a060e54bf8d69288fbee4904''\<rparr>,
           \<lparr>BranchName = ''refs/heads/main'', TargetType = BranchTargetRevision, BranchTarget = ''4b825dc642cb6eb9a060e54bf8d69288fbee4904''\<rparr>])
   \<and> ComputeSnapshotHash
        [\<lparr>BranchName = ''refs/heads/main'', TargetType = BranchTargetRevision, BranchTarget = ''4b825dc642cb6eb9a060e54bf8d69288fbee4904''\<rparr>,
         \<lparr>BranchName = ''refs/heads/dev'', TargetType = BranchTargetRevision, BranchTarget = ''4b825dc642cb6eb9a060e54bf8d69288fbee4904''\<rparr>]
     = ComputeSnapshotHash
        [\<lparr>BranchName = ''refs/heads/dev'', TargetType = BranchTargetRevision, BranchTarget = ''4b825dc642cb6eb9a060e54bf8d69288fbee4904''\<rparr>,
         \<lparr>BranchName = ''refs/heads/main'', TargetType = BranchTargetRevision, BranchTarget = ''4b825dc642cb6eb9a060e54bf8d69288fbee4904''\<rparr>]"
proof -
  let ?m = "\<lparr>Name = ''m'', Type = EntryTypeDirectory, Target = ''4b825dc642cb6eb9a060e54bf8d69288fbee4904'', Perms = []\<rparr>"
  let ?a = "\<lparr>Name = ''a'', Type = EntryTypeFile, Target = ''e69de29bb2d1d6434b8b29ae775ad8c2e48c5391'', Perms = []\<rparr>"
  let ?main = "\<lparr>BranchName = ''refs/heads/main'', TargetType = BranchTargetRevision, BranchTarget = ''4b825dc642cb6eb9a060e54bf8d69288fbee4904''\<rparr>"
  let ?dev = "\<lparr>BranchName = ''refs/heads/dev'', TargetType = BranchTargetRevision, BranchTarget = ''4b825dc642cb6eb9a060e54bf8d69288fbee4904''\<rparr>"
  have h1: "mset [?m, ?a] = mset [?a, ?m]" by simp
  have h2: "inj_on SortKey (set [?a, ?m])" by (simp add: SortKey_def)
  have h3: "mset [?main, ?dev] = mset [?dev, ?main]" by simp
  have h4: "inj_on BranchName (set [?dev, ?main])" by simp
  from permutation_invariant_digests[of "[?m, ?a]" "[?a, ?m]" "[?main, ?dev]" "[?dev, ?main]"]
  show ?thesis using h1 h2 h3 h4 by blast
qed

text \<open>
  C2 as stated fails where two different entries share a sort key: the sort
  compares keys only and leaves such entries in their input order, so two orders of
  the same two entries named \<open>a\<close> have different digests.
\<close>

theorem permutation_digest_counterexample:
  "mset [\<lparr>Name = ''a'', Type = EntryTypeFile, Target = ''e69de29bb2d1d6434b8b29ae775ad8c2e48c5391'', Perms = []\<rparr>,
         \<lparr>Name = ''a'', Type = EntryTypeFile, Target = ''ce013625030ba8dba906f756967f9e9ca394464a'', Perms = []\<rparr>]
   = mset [\<lparr>Name = ''a'', Type = EntryTypeFile, Target = ''ce013625030ba8dba906f756967f9e9ca394464a'', Perms = []\<rparr>,
           \<lparr>Name = ''a'', Type = EntryTypeFile, Target = ''e69de29bb2d1d6434b8b29ae775ad8c2e48c5391'', Perms = []\<rparr>]
   \<and> ComputeDirectoryHash
        [\<lparr>Name = ''a'', Type = EntryTypeFile, Target = ''e69de29bb2d1d6434b8b29ae775ad8c2e48c5391'', Perms = []\<rparr>,
         \<lparr>Name = ''a'', Type = EntryTypeFile, Target = ''ce013625030ba8dba906f756967f9e9ca394464a'', Perms = []\<rparr>]
     \<noteq> ComputeDirectoryHash
        [\<lparr>Name = ''a'', Type = EntryTypeFile, Target = ''ce013625030ba8dba906f756967f9e9ca394464a'', Perms = []\<rparr>,
         \<lparr>Name = ''a'', Type = EntryTypeFile, Target = ''e69de29bb2d1d6434b8b29ae775ad8c2e48c5391'', Perms = []\<rparr>]"
proof -
  let ?e = "\<lparr>Name = ''a'', Type = EntryTypeFile, Target = ''e69de29bb2d1d6434b8b29ae775ad8c2e48c5391'', Perms = []\<rparr>"
  let ?h = "\<lparr>Name = ''a'', Type = EntryTypeFile, Target = ''ce013625030ba8dba906f756967f9e9ca394464a'', Perms = []\<rparr>"
  have 1: "mset [?e, ?h] = mset [?h, ?e]" by simp
  have 2: "ComputeDirectoryHash [?e, ?h] \<noteq> ComputeDirectoryHash [?h, ?e]"
    by code_simp
  show ?thesis using 1 2 by blast
qed

section \<open>The default timezone of a revision\<close>

text \<open>
  C7: for every revision metadata, the revision hash with \<open>AuthorTimezone\<close> and
  \<open>CommitterTimezone\<close> empty equals the revision hash with both set to \<open>+0000\<close>.
\<close>

theorem revision_default_timezone:
  "ComputeRevisionHash (meta\<lparr>AuthorTimezone := [], CommitterTimezone := []\<rparr>)
   = ComputeRevisionHash (meta\<lparr>AuthorTimezone := ''+0000'', CommitterTimezone := ''+0000''\<rparr>)"
proof -
  have "serializeRevision (meta\<lparr>AuthorTimezone := [], CommitterTimezone := []\<rparr>)
        = serializeRevision (meta\<lparr>AuthorTimezone := ''+0000'', CommitterTimezone := ''+0000''\<rparr>)"
    by (simp add: serializeRevision_def Let_def)
  then show ?thesis
    by (simp only: ComputeRevisionHash_def)
qed

section \<open>Directory entries with an invalid target\<close>






section \<open>Escaping and unescaping qualifier values\<close>

text \<open>
  Decoding an encoded value gives the value back except that every \<open>+\<close> has become
  a space: the encoder leaves \<open>+\<close> as it is and \<^verbatim>\<open>url.QueryUnescape\<close> reads it as
  a space.
\<close>

lemma char37: "char_of (unhex CHR ''2'' * 16 + unhex CHR ''5'') = CHR ''%''" by code_simp
lemma char59: "char_of (unhex CHR ''3'' * 16 + unhex CHR ''B'') = CHR '';''" by code_simp
lemma ishex_digits: "ishex CHR ''2''" "ishex CHR ''5''" "ishex CHR ''3''" "ishex CHR ''B''"
  by (simp_all add: ishex_def fromHexChar_def)

lemma encodeQualifierValue_concat:
  "encodeQualifierValue v =
     concat (map (\<lambda>c. if c = CHR ''%'' then ''%25'' else if c = CHR '';'' then ''%3B'' else [c]) v)"
  by (induction v) (auto simp: encodeQualifierValue_def ReplaceAll_def)


lemma unescape_check_encoded: "unescape_check (encodeQualifierValue v) = None"
  unfolding encodeQualifierValue_concat
  by (induction v) (auto simp: ishex_digits)

lemma unescape_build_encoded:
  "unescape_build (encodeQualifierValue v) = map (\<lambda>c. if c = CHR ''+'' then CHR '' '' else c) v"
  unfolding encodeQualifierValue_concat
  by (induction v) (auto simp: char37 char59)

lemma decode_encode:
  "decodeQualifierValue (encodeQualifierValue v) = map (\<lambda>c. if c = CHR ''+'' then CHR '' '' else c) v"
  by (simp add: decodeQualifierValue_def QueryUnescape_def unescape_check_encoded unescape_build_encoded)

text \<open>
  C3: decoding the encoding of a qualifier value should give the value back. At the
  value \<open>c++\<close> the code gives \<open>c\<close> followed by two spaces.
\<close>

theorem plus_not_restored:
  "encodeQualifierValue ''c++'' = ''c++'' \<and> decodeQualifierValue (encodeQualifierValue ''c++'') = ''c  ''"
  by code_simp

section \<open>Parsing\<close>

lemma Split_not_Nil: "Split s sep \<noteq> []"
  by (induction s) (auto split: list.splits)

lemma Join_Split: "Join (Split s sep) [sep] = s"
proof (induction s)
  case Nil
  then show ?case by simp
next
  case (Cons c cs)
  obtain x xs where sp: "Split cs sep = x # xs"
    using Split_not_Nil[of cs sep] by (cases "Split cs sep") auto
  show ?case
  proof (cases "c = sep")
    case True
    then show ?thesis using Cons sp by simp
  next
    case False
    then show ?thesis using Cons sp by (cases xs) auto
  qed
qed

lemma Split_no_sep: "x \<in> set (Split s sep) \<Longrightarrow> sep \<notin> set x"
proof (induction s arbitrary: x)
  case Nil
  then show ?case by simp
next
  case (Cons c cs)
  obtain y ys where sp: "Split cs sep = y # ys"
    using Split_not_Nil[of cs sep] by (cases "Split cs sep") auto
  show ?case
  proof (cases "c = sep")
    case True
    then show ?thesis using Cons sp by auto
  next
    case False
    then show ?thesis using Cons.prems Cons.IH sp by auto
  qed
qed


lemma lookup_validObjectTypes:
  "lookup_bool validObjectTypes ty \<longleftrightarrow> ty \<in> {''cnt'', ''dir'', ''rev'', ''rel'', ''snp''}"
  by (auto simp: lookup_bool_def validObjectTypes_def ObjectTypeContent_def
      ObjectTypeDirectory_def ObjectTypeRevision_def ObjectTypeRelease_def
      ObjectTypeSnapshot_def split: option.splits if_splits)

lemma hashRegex_MatchString_iff:
  "hashRegex_MatchString h \<longleftrightarrow> length h = 40 \<and> set h \<subseteq> set ''0123456789abcdef''"
  unfolding hashRegex_MatchString_def list_all_iff by blast

text \<open>The decision cascade of \<open>Parse\<close> on a non-empty input.\<close>

lemma Parse_nonempty:
  assumes "s \<noteq> []"
  shows "Parse s =
     (let coreParts = Split (hd (Split s CHR '';'')) CHR '':'' in
      if length coreParts \<noteq> 4 then Inl ErrInvalidFormat
      else if coreParts ! 0 \<noteq> ''swh'' then Inl (ErrInvalidScheme (coreParts ! 0))
      else if coreParts ! 1 \<noteq> ''1'' then Inl (ErrInvalidVersion (coreParts ! 1))
      else if coreParts ! 2 \<notin> {''cnt'', ''dir'', ''rev'', ''rel'', ''snp''}
        then Inl (ErrInvalidObjectType (coreParts ! 2))
      else if \<not> (length (coreParts ! 3) = 40 \<and> set (coreParts ! 3) \<subseteq> set ''0123456789abcdef'')
        then Inl ErrInvalidObjectHash
      else Inr \<lparr>IdScheme = ''swh'', IdVersion = 1,
                ObjectType = coreParts ! 2, ObjectHash = coreParts ! 3,
                Qualifiers = parseQualifiers Map.empty (tl (Split s CHR '';''))\<rparr>)"
proof -
  have hd0: "Split s CHR '';'' ! 0 = hd (Split s CHR '';'')"
    using Split_not_Nil[of s "CHR '';''"] by (simp add: hd_conv_nth)
  have tl1: "drop 1 (Split s CHR '';'') = tl (Split s CHR '';'')"
    by (simp add: drop_Suc)
  show ?thesis
    using assms
    unfolding Parse_def Let_def hd0 tl1 lookup_validObjectTypes hashRegex_MatchString_iff
      Scheme_def SchemeVersion_def
    by simp
qed

text \<open>
  C8: \<open>Parse\<close> fails with \<open>ErrEmptySWHID\<close> exactly when the input is empty. On a
  non-empty input it fails with \<open>ErrInvalidFormat\<close> exactly when the first
  semicolon-delimited segment does not split on \<open>:\<close> into exactly four fields;
  otherwise the first validation that fails decides the failure kind, one kind each
  for a scheme other than \<open>swh\<close>, a version other than the string \<open>1\<close>, an object
  type outside the five codes and a hash that is not 40 characters of \<open>0-9a-f\<close>; and
  \<open>Parse\<close> succeeds exactly when all four validations pass.
\<close>

theorem Parse_failure_kinds:
  "(Parse s = Inl ErrEmptySWHID \<longleftrightarrow> s = [])
   \<and> (s \<noteq> [] \<longrightarrow>
        (Parse s = Inl ErrInvalidFormat
         \<longleftrightarrow> length (Split (hd (Split s CHR '';'')) CHR '':'') \<noteq> 4))
   \<and> (s \<noteq> [] \<longrightarrow> Split (hd (Split s CHR '';'')) CHR '':'' = [scheme, version, ty, h] \<longrightarrow>
        (if scheme \<noteq> ''swh'' then Parse s = Inl (ErrInvalidScheme scheme)
         else if version \<noteq> ''1'' then Parse s = Inl (ErrInvalidVersion version)
         else if ty \<notin> {''cnt'', ''dir'', ''rev'', ''rel'', ''snp''}
           then Parse s = Inl (ErrInvalidObjectType ty)
         else if \<not> (length h = 40 \<and> set h \<subseteq> set ''0123456789abcdef'')
           then Parse s = Inl ErrInvalidObjectHash
         else \<exists>i. Parse s = Inr i))
   \<and> ((\<exists>i. Parse s = Inr i) \<longrightarrow>
        s \<noteq> [] \<and> (\<exists>ty h. Split (hd (Split s CHR '';'')) CHR '':'' = [''swh'', ''1'', ty, h]
                   \<and> ty \<in> {''cnt'', ''dir'', ''rev'', ''rel'', ''snp''}
                   \<and> length h = 40 \<and> set h \<subseteq> set ''0123456789abcdef''))"
proof -
  have c1: "Parse s = Inl ErrEmptySWHID \<longleftrightarrow> s = []"
  proof (cases "s = []")
    case True
    then show ?thesis by (simp add: Parse_def)
  next
    case False
    then show ?thesis by (simp add: Parse_nonempty Let_def)
  qed
  have c2: "s \<noteq> [] \<longrightarrow>
        (Parse s = Inl ErrInvalidFormat
         \<longleftrightarrow> length (Split (hd (Split s CHR '';'')) CHR '':'') \<noteq> 4)"
    by (simp add: Parse_nonempty Let_def)
  have c3: "s \<noteq> [] \<longrightarrow> Split (hd (Split s CHR '';'')) CHR '':'' = [scheme, version, ty, h] \<longrightarrow>
        (if scheme \<noteq> ''swh'' then Parse s = Inl (ErrInvalidScheme scheme)
         else if version \<noteq> ''1'' then Parse s = Inl (ErrInvalidVersion version)
         else if ty \<notin> {''cnt'', ''dir'', ''rev'', ''rel'', ''snp''}
           then Parse s = Inl (ErrInvalidObjectType ty)
         else if \<not> (length h = 40 \<and> set h \<subseteq> set ''0123456789abcdef'')
           then Parse s = Inl ErrInvalidObjectHash
         else \<exists>i. Parse s = Inr i)"
    by (simp add: Parse_nonempty Let_def)
  have c4: "(\<exists>i. Parse s = Inr i) \<longrightarrow>
        s \<noteq> [] \<and> (\<exists>ty h. Split (hd (Split s CHR '';'')) CHR '':'' = [''swh'', ''1'', ty, h]
                   \<and> ty \<in> {''cnt'', ''dir'', ''rev'', ''rel'', ''snp''}
                   \<and> length h = 40 \<and> set h \<subseteq> set ''0123456789abcdef'')"
  proof
    assume ok: "\<exists>i. Parse s = Inr i"
    then have ne: "s \<noteq> []" by (auto simp: Parse_def)
    let ?cp = "Split (hd (Split s CHR '';'')) CHR '':''"
    from ok ne have len: "length ?cp = 4"
      by (auto simp: Parse_nonempty Let_def split: if_splits)
    then obtain a b c d where cp: "?cp = [a, b, c, d]"
      by (auto simp: length_Suc_conv eval_nat_numeral)
    from ok ne cp have "a = ''swh'' \<and> b = ''1'' \<and> c \<in> {''cnt'', ''dir'', ''rev'', ''rel'', ''snp''}
        \<and> length d = 40 \<and> set d \<subseteq> set ''0123456789abcdef''"
      by (simp add: Parse_nonempty Let_def split: if_splits)
    with ne cp show "s \<noteq> [] \<and> (\<exists>ty h. ?cp = [''swh'', ''1'', ty, h]
                     \<and> ty \<in> {''cnt'', ''dir'', ''rev'', ''rel'', ''snp''}
                     \<and> length h = 40 \<and> set h \<subseteq> set ''0123456789abcdef'')"
      by blast
  qed
  show ?thesis
    by (rule conjI[OF c1 conjI[OF c2 conjI[OF c3 c4]]])
qed


theorem Parse_failure_kinds_witness:
  "Parse [] = Inl ErrEmptySWHID
   \<and> Parse ''swh:1:cnt'' = Inl ErrInvalidFormat
   \<and> Parse ''swx:1:cnt:94a9ed024d3859793618152ea559a168bbcbb5e2'' = Inl (ErrInvalidScheme ''swx'')
   \<and> Parse ''swh:2:cnt:94a9ed024d3859793618152ea559a168bbcbb5e2'' = Inl (ErrInvalidVersion ''2'')
   \<and> Parse ''swh:1:foo:94a9ed024d3859793618152ea559a168bbcbb5e2'' = Inl (ErrInvalidObjectType ''foo'')
   \<and> Parse ''swh:1:cnt:94a9ed024d3859793618152ea559a168bbcbb5ez'' = Inl ErrInvalidObjectHash
   \<and> (\<exists>i. Parse ''swh:1:cnt:94a9ed024d3859793618152ea559a168bbcbb5e2;origin=https://example.com'' = Inr i)"
proof -
  have 1: "Parse [] = Inl ErrEmptySWHID"
    using Parse_failure_kinds[of "[]"] by simp
  have 2: "Parse ''swh:1:cnt'' = Inl ErrInvalidFormat"
    using Parse_failure_kinds[of "''swh:1:cnt''"] by simp
  have 3: "Parse ''swx:1:cnt:94a9ed024d3859793618152ea559a168bbcbb5e2'' = Inl (ErrInvalidScheme ''swx'')"
    using Parse_failure_kinds[of "''swx:1:cnt:94a9ed024d3859793618152ea559a168bbcbb5e2''"
        "''swx''" "''1''" "''cnt''" "''94a9ed024d3859793618152ea559a168bbcbb5e2''"]
    by simp
  have 4: "Parse ''swh:2:cnt:94a9ed024d3859793618152ea559a168bbcbb5e2'' = Inl (ErrInvalidVersion ''2'')"
    using Parse_failure_kinds[of "''swh:2:cnt:94a9ed024d3859793618152ea559a168bbcbb5e2''"
        "''swh''" "''2''" "''cnt''" "''94a9ed024d3859793618152ea559a168bbcbb5e2''"]
    by simp
  have 5: "Parse ''swh:1:foo:94a9ed024d3859793618152ea559a168bbcbb5e2'' = Inl (ErrInvalidObjectType ''foo'')"
    using Parse_failure_kinds[of "''swh:1:foo:94a9ed024d3859793618152ea559a168bbcbb5e2''"
        "''swh''" "''1''" "''foo''" "''94a9ed024d3859793618152ea559a168bbcbb5e2''"]
    by simp
  have 6: "Parse ''swh:1:cnt:94a9ed024d3859793618152ea559a168bbcbb5ez'' = Inl ErrInvalidObjectHash"
    using Parse_failure_kinds[of "''swh:1:cnt:94a9ed024d3859793618152ea559a168bbcbb5ez''"
        "''swh''" "''1''" "''cnt''" "''94a9ed024d3859793618152ea559a168bbcbb5ez''"]
    by simp
  have 7: "\<exists>i. Parse ''swh:1:cnt:94a9ed024d3859793618152ea559a168bbcbb5e2;origin=https://example.com'' = Inr i"
    using Parse_failure_kinds[of "''swh:1:cnt:94a9ed024d3859793618152ea559a168bbcbb5e2;origin=https://example.com''"
        "''swh''" "''1''" "''cnt''" "''94a9ed024d3859793618152ea559a168bbcbb5e2''"]
    by simp
  show ?thesis using 1 2 3 4 5 6 7 by blast
qed

subsection \<open>Qualifier segments\<close>

lemma Index_key_value:
  assumes "key_value_segment seg"
  shows "Index seg CHR ''='' \<noteq> - 1"
    and "take (nat (Index seg CHR ''='')) seg = segment_key seg"
    and "drop (nat (Index seg CHR ''='' + 1)) seg = segment_value seg"
proof -
  have idx: "Index seg CHR ''='' = int (length (takeWhile (\<lambda>c. c \<noteq> CHR ''='') seg))"
    using assms by (simp add: Index_def key_value_segment_def)
  show "Index seg CHR ''='' \<noteq> - 1" using idx by simp
  show "take (nat (Index seg CHR ''='')) seg = segment_key seg"
    by (simp add: idx segment_key_def takeWhile_eq_take[symmetric])
  have "nat (Index seg CHR ''='' + 1) = Suc (length (takeWhile (\<lambda>c. c \<noteq> CHR ''='') seg))"
    using idx by simp
  then show "drop (nat (Index seg CHR ''='' + 1)) seg = segment_value seg"
    by (simp add: segment_value_def dropWhile_eq_drop)
qed

lemma Index_no_key_value:
  "\<not> key_value_segment seg \<Longrightarrow> Index seg CHR ''='' = - 1"
  by (simp add: Index_def key_value_segment_def)

lemma last_value_Cons:
  "last_value k (seg # segs) =
     (case last_value k segs of
        Some v \<Rightarrow> Some v
      | None \<Rightarrow> if key_value_segment seg \<and> segment_key seg = k
                then Some (decodeQualifierValue (segment_value seg)) else None)"
  by (simp add: last_value_def Let_def)

lemma parseQualifiers_last_value:
  "parseQualifiers q segs k = (case last_value k segs of Some v \<Rightarrow> Some v | None \<Rightarrow> q k)"
proof (induction segs arbitrary: q)
  case Nil
  then show ?case by (simp add: last_value_def)
next
  case (Cons seg segs)
  show ?case
  proof (cases "key_value_segment seg")
    case True
    then have "seg \<noteq> []" by (auto simp: key_value_segment_def)
    then show ?thesis
      using True Cons.IH
      by (simp add: Index_key_value Let_def last_value_Cons split: option.splits)
  next
    case False
    then show ?thesis
      using Cons.IH
      by (simp add: Index_no_key_value Let_def last_value_Cons split: option.splits)
  qed
qed

lemma hd_Split_no_sep: "Split (hd (Split s sep)) sep = [hd (Split s sep)]"
proof -
  have "hd (Split s sep) \<in> set (Split s sep)" using Split_not_Nil by simp
  then have "sep \<notin> set (hd (Split s sep))" by (rule Split_no_sep)
  moreover have "sep \<notin> set x \<Longrightarrow> Split x sep = [x]" for x
    by (induction x) auto
  ultimately show ?thesis by simp
qed

text \<open>
  C10: for every input string that reaches the qualifier loop of \<open>Parse\<close>, that is
  whose core part, the text before the first \<open>;\<close>, passes the checks of \<open>Parse\<close>,
  \<open>Parse\<close> succeeds whatever the qualifier segments are, so a key that appears in
  more than one \<open>key=value\<close> segment is not an error; and the resulting map binds
  every key to the decoded value of the last \<open>key=value\<close> segment with that key,
  from left to right.
\<close>

theorem qualifiers_last_wins:
  assumes "Parse (hd (Split s CHR '';'')) = Inr c"
  shows "\<exists>i. Parse s = Inr i \<and> (\<forall>k. Qualifiers i k = last_value k (tl (Split s CHR '';'')))"
proof -
  let ?core = "hd (Split s CHR '';'')"
  have cne: "?core \<noteq> []" using assms by (auto simp: Parse_def)
  then have ne: "s \<noteq> []" by auto
  have same: "hd (Split ?core CHR '';'') = ?core"
    by (simp add: hd_Split_no_sep)
  from assms cne have ok: "length (Split ?core CHR '':'') = 4
      \<and> Split ?core CHR '':'' ! 0 = ''swh'' \<and> Split ?core CHR '':'' ! 1 = ''1''
      \<and> Split ?core CHR '':'' ! 2 \<in> {''cnt'', ''dir'', ''rev'', ''rel'', ''snp''}
      \<and> length (Split ?core CHR '':'' ! 3) = 40
      \<and> set (Split ?core CHR '':'' ! 3) \<subseteq> set ''0123456789abcdef''"
    by (simp add: Parse_nonempty[OF cne] same Let_def split: if_splits)
  then have "Parse s = Inr \<lparr>IdScheme = ''swh'', IdVersion = 1,
                ObjectType = Split ?core CHR '':'' ! 2, ObjectHash = Split ?core CHR '':'' ! 3,
                Qualifiers = parseQualifiers Map.empty (tl (Split s CHR '';''))\<rparr>"
    by (simp add: Parse_nonempty[OF ne] Let_def)
  then show ?thesis
    by (simp add: parseQualifiers_last_value split: option.splits)
qed


theorem qualifiers_last_wins_witness:
  "Parse (hd (Split ''swh:1:cnt:94a9ed024d3859793618152ea559a168bbcbb5e2;origin=https://example.com;origin=https://example.org'' CHR '';''))
     = Inr \<lparr>IdScheme = ''swh'', IdVersion = 1, ObjectType = ''cnt'',
            ObjectHash = ''94a9ed024d3859793618152ea559a168bbcbb5e2'', Qualifiers = Map.empty\<rparr>
   \<and> (\<exists>i. Parse ''swh:1:cnt:94a9ed024d3859793618152ea559a168bbcbb5e2;origin=https://example.com;origin=https://example.org'' = Inr i
          \<and> Qualifiers i ''origin'' = Some ''https://example.org'')"
proof -
  let ?s = "''swh:1:cnt:94a9ed024d3859793618152ea559a168bbcbb5e2;origin=https://example.com;origin=https://example.org''"
  let ?c = "\<lparr>IdScheme = ''swh'', IdVersion = 1, ObjectType = ''cnt'',
            ObjectHash = ''94a9ed024d3859793618152ea559a168bbcbb5e2'', Qualifiers = Map.empty\<rparr>"
  have h: "Parse (hd (Split ?s CHR '';'')) = Inr ?c"
    by (simp add: Parse_nonempty Let_def)
  have v: "last_value ''origin'' (tl (Split ?s CHR '';'')) = Some ''https://example.org''"
    by code_simp
  from qualifiers_last_wins[OF h] v
  have "\<exists>i. Parse ?s = Inr i \<and> Qualifiers i ''origin'' = Some ''https://example.org''"
    by auto
  with h show ?thesis by blast
qed

section \<open>The round trip of \<open>Parse\<close> and \<open>String\<close>\<close>

lemma escaped_only_check: "escaped_only v \<Longrightarrow> unescape_check v = None"
  by (induction v rule: escaped_only.induct)
     (auto simp: ishex_digits split: list.splits if_splits)

lemma escaped_only_build:
  "escaped_only v \<Longrightarrow> encodeQualifierValue (unescape_build v) = v"
  unfolding encodeQualifierValue_concat
  by (induction v rule: escaped_only.induct)
     (auto simp: char37 char59 split: list.splits if_splits)

lemma encode_decode_escaped:
  "escaped_only v \<Longrightarrow> encodeQualifierValue (decodeQualifierValue v) = v"
  by (simp add: decodeQualifierValue_def QueryUnescape_def escaped_only_check escaped_only_build)

lemma key_value_segment_split:
  "key_value_segment seg \<Longrightarrow> seg = segment_key seg @ ''='' @ segment_value seg"
proof -
  assume kv: "key_value_segment seg"
  let ?P = "\<lambda>c. c \<noteq> CHR ''=''"
  have "dropWhile ?P seg \<noteq> []" using kv by (auto simp: key_value_segment_def)
  moreover have "hd (dropWhile ?P seg) = CHR ''=''"
    using calculation hd_dropWhile[of ?P seg] by auto
  ultimately have "dropWhile ?P seg = CHR ''='' # drop 1 (dropWhile ?P seg)"
    by (cases "dropWhile ?P seg") auto
  then have "takeWhile ?P seg @ CHR ''='' # drop 1 (dropWhile ?P seg) = seg"
    using takeWhile_dropWhile_id[of ?P seg] by simp
  then show ?thesis by (simp add: segment_key_def segment_value_def)
qed

lemma render_id:
  "key_value_segment seg \<Longrightarrow> escaped_only (segment_value seg) \<Longrightarrow> render seg = seg"
  using key_value_segment_split[of seg] by (simp add: render_def encode_decode_escaped)


lemma subseq_set: "subseq xs ys \<Longrightarrow> set xs \<subseteq> set ys"
  by (auto elim: list_emb_set)

lemma subseq_distinct_left: "subseq xs ys \<Longrightarrow> distinct ys \<Longrightarrow> distinct xs"
proof (induction ys arbitrary: xs)
  case Nil
  then show ?case by (cases xs) auto
next
  case (Cons y ys)
  show ?case
  proof (cases xs)
    case Nil
    then show ?thesis by simp
  next
    case (Cons x xs')
    show ?thesis
    proof (cases "x = y")
      case True
      then have sub: "subseq xs' ys" using Cons.prems(1) Cons by simp
      then have "distinct xs'" using Cons.IH Cons.prems(2) by simp
      moreover have "x \<notin> set xs'" using subseq_set[OF sub] Cons.prems(2) True by auto
      ultimately show ?thesis using Cons by simp
    next
      case False
      then have "subseq xs ys" using Cons.prems(1) Cons by (simp add: subseq_Cons2_iff)
      then show ?thesis using Cons.IH Cons.prems(2) by simp
    qed
  qed
qed

text \<open>
  Looking up the keys of a list \<open>ys\<close> in an association list whose keys form a
  subsequence of \<open>ys\<close> finds the entries of the association list, in their order.
\<close>

lemma lookup_in_order:
  "subseq (map fst ps) ys \<Longrightarrow> distinct ys \<Longrightarrow>
   concat (map (\<lambda>key. case map_of ps key of Some v \<Rightarrow> [g key v] | None \<Rightarrow> []) ys)
   = map (\<lambda>(k, v). g k v) ps"
proof (induction ys arbitrary: ps)
  case Nil
  then show ?case by (cases ps) auto
next
  case (Cons y ys)
  show ?case
  proof (cases ps)
    case Nil
    then show ?thesis by (simp add: concat_eq_Nil_conv)
  next
    case (Cons p ps')
    obtain k v where p: "p = (k, v)" by (cases p)
    show ?thesis
    proof (cases "k = y")
      case True
      then have sub: "subseq (map fst ps') ys"
        using Cons.prems(1) Cons p by simp
      have "y \<notin> set ys" using Cons.prems(2) by simp
      then have eq: "\<And>key. key \<in> set ys \<Longrightarrow> map_of ps key = map_of ps' key"
        using Cons p True by auto
      have "concat (map (\<lambda>key. case map_of ps key of Some v \<Rightarrow> [g key v] | None \<Rightarrow> []) ys)
            = concat (map (\<lambda>key. case map_of ps' key of Some v \<Rightarrow> [g key v] | None \<Rightarrow> []) ys)"
        using eq by (simp cong: map_cong)
      also have "\<dots> = map (\<lambda>(k, v). g k v) ps'"
        using Cons.IH[OF sub] Cons.prems(2) by simp
      finally show ?thesis using Cons p True by simp
    next
      case False
      then have sub: "subseq (map fst ps) ys"
        using Cons.prems(1) Cons p by (simp add: subseq_Cons2_iff)
      have "y \<notin> set ys" using Cons.prems(2) by simp
      then have "y \<notin> fst ` set ps" using subseq_set[OF sub] by auto
      then have "map_of ps y = None" by (simp add: map_of_eq_None_iff)
      then show ?thesis using Cons.IH[OF sub] Cons.prems(2) by simp
    qed
  qed
qed

lemma concat_single_hit:
  assumes "distinct (map fst kvs)" "(k, v) \<in> set kvs"
    and "\<And>k' v'. (k', v') \<in> set kvs \<Longrightarrow> k' \<noteq> k \<Longrightarrow> H (k', v') = []"
  shows "concat (map H kvs) = H (k, v)"
  using assms
proof (induction kvs)
  case Nil
  then show ?case by simp
next
  case (Cons p kvs)
  show ?case
  proof (cases "p = (k, v)")
    case True
    have "\<And>q. q \<in> set kvs \<Longrightarrow> H q = []"
    proof -
      fix q assume q: "q \<in> set kvs"
      obtain k' v' where q': "q = (k', v')" by (cases q)
      have "k' \<noteq> k" using Cons.prems(1) True q q' by force
      then show "H q = []" using Cons.prems(3)[of k' v'] q q' by simp
    qed
    then have "concat (map H kvs) = []" by (simp add: concat_eq_Nil_conv)
    then show ?thesis using True by simp
  next
    case False
    then have in_tl: "(k, v) \<in> set kvs" using Cons.prems(2) by simp
    obtain k' v' where p: "p = (k', v')" by (cases p)
    have "k' \<noteq> k" using Cons.prems(1) in_tl p by force
    then have "H p = []" using Cons.prems(3)[of k' v'] p by simp
    moreover have "concat (map H kvs) = H (k, v)"
      using Cons.IH in_tl Cons.prems(1,3) by simp
    ultimately show ?thesis by simp
  qed
qed

lemma last_value_map_of:
  assumes "list_all key_value_segment segs" "distinct (map segment_key segs)"
  shows "last_value k segs
         = map_of (map (\<lambda>seg. (segment_key seg, decodeQualifierValue (segment_value seg))) segs) k"
  using assms
proof (induction segs)
  case Nil
  then show ?case by (simp add: last_value_def)
next
  case (Cons seg segs)
  then have IH: "last_value k segs
         = map_of (map (\<lambda>seg. (segment_key seg, decodeQualifierValue (segment_value seg))) segs) k"
    by simp
  show ?case
  proof (cases "segment_key seg = k")
    case True
    then have "k \<notin> segment_key ` set segs" using Cons.prems(2) by auto
    then have "last_value k segs = None"
      unfolding IH by (simp add: map_of_eq_None_iff image_image)
    then show ?thesis using True Cons.prems(1) by (simp add: last_value_Cons)
  next
    case False
    then show ?thesis using IH by (auto simp: last_value_Cons split: option.splits)
  qed
qed


lemma distinct_canonicalQualifierOrder: "distinct canonicalQualifierOrder"
  by (simp add: canonicalQualifierOrder_def)

lemma Join_Cons: "xs \<noteq> [] \<Longrightarrow> Join (x # xs) sep = x @ sep @ Join xs sep"
  by (cases xs) auto

lemma formatQualifiers_canonical:
  assumes can: "canonical_qualifiers segs"
    and ro: "range_order (parseQualifiers Map.empty segs) kvs"
  shows "formatQualifiers (parseQualifiers Map.empty segs) kvs = Join segs '';''"
proof -
  let ?C = "set canonicalQualifierOrder"
  let ?P = "\<lambda>seg. segment_key seg \<in> ?C"
  let ?pr = "\<lambda>seg. (segment_key seg, decodeQualifierValue (segment_value seg))"
  let ?g = "\<lambda>key v. key @ ''='' @ encodeQualifierValue v"
  define csegs where "csegs = takeWhile ?P segs"
  define rsegs where "rsegs = dropWhile ?P segs"
  define quals where "quals = parseQualifiers Map.empty segs"
  have segs: "segs = csegs @ rsegs" by (simp add: csegs_def rsegs_def)
  have kv: "list_all key_value_segment segs"
    and esc: "list_all (\<lambda>seg. escaped_only (segment_value seg)) segs"
    and ord: "canonical_key_order (map segment_key segs)"
    using can by (simp_all add: canonical_qualifiers_def)
  have comp: "(\<lambda>k. k \<in> ?C) \<circ> segment_key = ?P" by (simp add: fun_eq_iff)
  have sub: "subseq (map segment_key csegs) canonicalQualifierOrder"
    using ord by (simp add: canonical_key_order_def takeWhile_map comp csegs_def)
  have rlen: "length rsegs \<le> 1"
    using ord by (simp add: canonical_key_order_def dropWhile_map comp rsegs_def)
  have ckeys: "segment_key ` set csegs \<subseteq> ?C"
    using subseq_set[OF sub] by auto
  have rkeys: "\<And>r. r \<in> set rsegs \<Longrightarrow> segment_key r \<notin> ?C"
  proof -
    fix r assume r: "r \<in> set rsegs"
    then have ne: "rsegs \<noteq> []" by auto
    then have "rsegs = [hd rsegs]" using rlen by (cases rsegs) auto
    then have "r = hd rsegs" using r by (metis empty_iff empty_set set_ConsD)
    then show "segment_key r \<notin> ?C"
      using hd_dropWhile[of ?P segs] ne by (simp add: rsegs_def)
  qed
  have dc: "distinct (map segment_key csegs)"
    using subseq_distinct_left[OF sub distinct_canonicalQualifierOrder] .
  have dr: "distinct (map segment_key rsegs)"
    using rlen by (cases rsegs) auto
  have dist: "distinct (map segment_key segs)"
    using dc dr ckeys rkeys by (auto simp: segs)
  have quals: "quals = map_of (map ?pr segs)"
    unfolding quals_def
    by (rule ext) (simp add: parseQualifiers_last_value last_value_map_of[OF kv dist]
        split: option.splits)
  have render: "\<And>seg. seg \<in> set segs \<Longrightarrow> ?g (segment_key seg) (decodeQualifierValue (segment_value seg)) = seg"
  proof -
    fix seg assume "seg \<in> set segs"
    then have "key_value_segment seg" "escaped_only (segment_value seg)"
      using kv esc by (auto simp: list_all_iff)
    then show "?g (segment_key seg) (decodeQualifierValue (segment_value seg)) = seg"
      using render_id[of seg] by (simp add: render_def)
  qed
  \<comment> \<open>the first loop\<close>
  have lookup: "\<And>key. key \<in> ?C \<Longrightarrow> quals key = map_of (map ?pr csegs) key"
  proof -
    fix key assume key: "key \<in> ?C"
    have "key \<notin> fst ` set (map ?pr rsegs)" using rkeys key by (auto simp: image_image)
    then have "map_of (map ?pr rsegs) key = None" by (simp add: map_of_eq_None_iff)
    then show "quals key = map_of (map ?pr csegs) key"
      by (simp add: quals segs map_of_append map_add_def split: option.splits)
  qed
  have "concat (map (\<lambda>key. case quals key of Some v \<Rightarrow> [?g key v] | None \<Rightarrow> [])
                  canonicalQualifierOrder)
        = concat (map (\<lambda>key. case map_of (map ?pr csegs) key of Some v \<Rightarrow> [?g key v] | None \<Rightarrow> [])
                  canonicalQualifierOrder)"
    using lookup by (simp cong: map_cong)
  also have "\<dots> = map (\<lambda>(k, v). ?g k v) (map ?pr csegs)"
  proof (rule lookup_in_order)
    show "subseq (map fst (map ?pr csegs)) canonicalQualifierOrder"
      using sub by (simp add: comp_def)
    show "distinct canonicalQualifierOrder" by (rule distinct_canonicalQualifierOrder)
  qed
  also have "\<dots> = csegs"
    using render by (simp add: segs comp_def map_idI)
  finally have first: "concat (map (\<lambda>key. case quals key of Some v \<Rightarrow> [?g key v] | None \<Rightarrow> [])
                  canonicalQualifierOrder) = csegs" .
  \<comment> \<open>the second loop\<close>
  let ?H = "\<lambda>(key, v). if key \<notin> ?C then [?g key v] else []"
  have dk: "distinct (map fst kvs)" and mk: "map_of kvs = quals"
    using ro by (simp_all add: range_order_def quals_def)
  have inkeys: "\<And>k v. (k, v) \<in> set kvs \<Longrightarrow> k \<in> segment_key ` set segs"
  proof -
    fix k v assume "(k, v) \<in> set kvs"
    then have "map_of kvs k = Some v" using dk by simp
    then have "map_of (map ?pr segs) k \<noteq> None" using mk quals by simp
    then show "k \<in> segment_key ` set segs"
      by (simp add: map_of_eq_None_iff image_image)
  qed
  have second: "concat (map ?H kvs) = rsegs"
  proof (cases rsegs)
    case Nil
    have "\<And>q. q \<in> set kvs \<Longrightarrow> ?H q = []"
    proof -
      fix q assume q: "q \<in> set kvs"
      obtain k v where q': "q = (k, v)" by (cases q)
      have "k \<in> ?C" using inkeys[of k v] q q' ckeys Nil segs by auto
      then show "?H q = []" using q' by simp
    qed
    then have "concat (map ?H kvs) = []" by (simp add: concat_eq_Nil_conv)
    then show ?thesis using Nil by simp
  next
    case (Cons r rest)
    then have rs: "rsegs = [r]" using rlen by simp
    let ?kr = "segment_key r"
    let ?vr = "decodeQualifierValue (segment_value r)"
    have rnot: "?kr \<notin> ?C" using rkeys[of r] rs by simp
    have "?kr \<notin> fst ` set (map ?pr csegs)" using ckeys rnot by (auto simp: image_image)
    then have "map_of (map ?pr csegs) ?kr = None" by (simp add: map_of_eq_None_iff)
    then have "quals ?kr = Some ?vr"
      by (simp add: quals segs rs map_of_append map_add_def)
    then have mem: "(?kr, ?vr) \<in> set kvs"
      using mk by (simp add: map_of_SomeD)
    have others: "\<And>k' v'. (k', v') \<in> set kvs \<Longrightarrow> k' \<noteq> ?kr \<Longrightarrow> ?H (k', v') = []"
    proof -
      fix k' v' assume a: "(k', v') \<in> set kvs" "k' \<noteq> ?kr"
      have "k' \<in> segment_key ` set segs" using inkeys a(1) by simp
      then have "k' \<in> segment_key ` set csegs" using a(2) by (auto simp: segs rs)
      then have "k' \<in> ?C" using ckeys by auto
      then show "?H (k', v') = []" by simp
    qed
    have "concat (map ?H kvs) = ?H (?kr, ?vr)"
      using dk mem others by (rule concat_single_hit)
    also have "\<dots> = [r]" using rnot render[of r] by (simp add: segs rs)
    finally show ?thesis using rs by simp
  qed
  show ?thesis
    unfolding formatQualifiers_def Let_def quals_def[symmetric] first second
    by (simp add: segs)
qed


lemma Itoa_1: "Itoa 1 = ''1''"
  by code_simp

text \<open>
  C1 (as amended): for every string \<open>s\<close> accepted by \<open>Parse\<close> in which every
  qualifier segment has the form \<open>key=value\<close>, the keys are in canonical order
  (keys of the canonical list, each at most once and in the order of that list,
  followed by at most one other key) and the values use only the escaped character
  set (every \<open>%\<close> starts \<open>%25\<close> or \<open>%3B\<close>, and no \<open>+\<close>), \<open>String\<close> of the parsed
  identifier is \<open>s\<close> again, in whatever order the runtime visits the qualifier map.
\<close>

theorem parse_format_round_trip:
  assumes "Parse s = Inr i"
    and "canonical_qualifiers (tl (Split s CHR '';''))"
    and "range_order (Qualifiers i) kvs"
  shows "String i kvs = s"
proof -
  let ?parts = "Split s CHR '';''"
  let ?core = "hd ?parts"
  let ?segs = "tl ?parts"
  let ?cp = "Split ?core CHR '':''"
  have ne: "s \<noteq> []" using assms(1) by (auto simp: Parse_def)
  from assms(1) ne have len: "length ?cp = 4"
    by (auto simp: Parse_nonempty Let_def split: if_splits)
  then obtain a b c d where cp: "?cp = [a, b, c, d]"
    by (auto simp: length_Suc_conv eval_nat_numeral)
  from assms(1) ne cp have ab: "a = ''swh''" "b = ''1''"
    and i: "i = \<lparr>IdScheme = ''swh'', IdVersion = 1, ObjectType = c, ObjectHash = d,
                 Qualifiers = parseQualifiers Map.empty ?segs\<rparr>"
    by (simp_all add: Parse_nonempty Let_def split: if_splits)
  have "Join ?cp '':'' = ?core" by (rule Join_Split)
  then have core: "CoreSWHID i = ?core"
    by (simp add: cp ab i CoreSWHID_def Itoa_1)
  have parts: "?parts = ?core # ?segs"
    using Split_not_Nil[of s "CHR '';''"] by simp
  have s: "Join (?core # ?segs) '';'' = s"
    using Join_Split[of s "CHR '';''"] parts by simp
  show ?thesis
  proof (cases "?segs = []")
    case True
    then show ?thesis using s core by (simp add: String_def i)
  next
    case False
    then obtain seg rest where segs: "?segs = seg # rest" by (cases ?segs) auto
    have "key_value_segment seg"
      using assms(2) segs by (simp add: canonical_qualifiers_def)
    then have "last_value (segment_key seg) ?segs \<noteq> None"
      by (simp add: segs last_value_def Let_def)
    then have "Qualifiers i (segment_key seg) \<noteq> None"
      by (simp add: i parseQualifiers_last_value split: option.splits)
    then have nonempty: "Qualifiers i \<noteq> Map.empty" by auto
    have "formatQualifiers (Qualifiers i) kvs = Join ?segs '';''"
      using formatQualifiers_canonical[OF assms(2)] assms(3) by (simp add: i)
    then have "String i kvs = ?core @ '';'' @ Join ?segs '';''"
      using nonempty core by (simp add: String_def Let_def)
    also have "\<dots> = Join (?core # ?segs) '';''"
      using False by (simp add: Join_Cons)
    finally show ?thesis using s by simp
  qed
qed

theorem parse_format_round_trip_witness:
  "Parse ''swh:1:cnt:94a9ed024d3859793618152ea559a168bbcbb5e2;origin=https://example.com;path=/src/main.go''
     = Inr \<lparr>IdScheme = ''swh'', IdVersion = 1, ObjectType = ''cnt'',
            ObjectHash = ''94a9ed024d3859793618152ea559a168bbcbb5e2'',
            Qualifiers = [''origin'' \<mapsto> ''https://example.com'', ''path'' \<mapsto> ''/src/main.go'']\<rparr>
   \<and> canonical_qualifiers (tl (Split
         ''swh:1:cnt:94a9ed024d3859793618152ea559a168bbcbb5e2;origin=https://example.com;path=/src/main.go''
         CHR '';''))
   \<and> range_order [''origin'' \<mapsto> ''https://example.com'', ''path'' \<mapsto> ''/src/main.go'']
         [(''path'', ''/src/main.go''), (''origin'', ''https://example.com'')]
   \<and> String \<lparr>IdScheme = ''swh'', IdVersion = 1, ObjectType = ''cnt'',
            ObjectHash = ''94a9ed024d3859793618152ea559a168bbcbb5e2'',
            Qualifiers = [''origin'' \<mapsto> ''https://example.com'', ''path'' \<mapsto> ''/src/main.go'']\<rparr>
         [(''path'', ''/src/main.go''), (''origin'', ''https://example.com'')]
     = ''swh:1:cnt:94a9ed024d3859793618152ea559a168bbcbb5e2;origin=https://example.com;path=/src/main.go''"
proof -
  let ?s = "''swh:1:cnt:94a9ed024d3859793618152ea559a168bbcbb5e2;origin=https://example.com;path=/src/main.go''"
  let ?q = "[''origin'' \<mapsto> ''https://example.com'', ''path'' \<mapsto> ''/src/main.go'']"
  let ?i = "\<lparr>IdScheme = ''swh'', IdVersion = 1, ObjectType = ''cnt'',
            ObjectHash = ''94a9ed024d3859793618152ea559a168bbcbb5e2'', Qualifiers = ?q\<rparr>"
  let ?kvs = "[(''path'', ''/src/main.go''), (''origin'', ''https://example.com'')]"
  have h1: "Parse ?s = Inr ?i"
    by (simp add: Parse_nonempty Let_def Index_def decodeQualifierValue_def QueryUnescape_def)
  have h2: "canonical_qualifiers (tl (Split ?s CHR '';''))"
    by (simp add: canonical_qualifiers_def canonical_key_order_def key_value_segment_def
        segment_key_def segment_value_def canonicalQualifierOrder_def)
  have h3: "range_order (Qualifiers ?i) ?kvs"
    by (simp add: range_order_def)
  from parse_format_round_trip[OF h1 h2 h3] h1 h2 h3 show ?thesis by simp
qed

text \<open>
  C1 as stated fails on accepted strings of three kinds. \<open>Parse\<close> skips a segment
  without \<open>=\<close>, so the string ending in \<open>;\<close> comes back without the \<open>;\<close>. Of
  a key that is repeated \<open>Parse\<close> keeps the last value only, so two \<open>origin\<close>
  segments come back as one. And the keys outside the canonical list are written in
  the order in which the runtime visits the map, so \<open>foo=1;bar=2\<close> comes back as
  \<open>bar=2;foo=1\<close> when the map is visited in that order.
\<close>

theorem round_trip_counterexample:
  "Parse ''swh:1:cnt:94a9ed024d3859793618152ea559a168bbcbb5e2;''
     = Inr \<lparr>IdScheme = ''swh'', IdVersion = 1, ObjectType = ''cnt'',
            ObjectHash = ''94a9ed024d3859793618152ea559a168bbcbb5e2'', Qualifiers = Map.empty\<rparr>
   \<and> range_order Map.empty []
   \<and> String \<lparr>IdScheme = ''swh'', IdVersion = 1, ObjectType = ''cnt'',
            ObjectHash = ''94a9ed024d3859793618152ea559a168bbcbb5e2'', Qualifiers = Map.empty\<rparr> []
     = ''swh:1:cnt:94a9ed024d3859793618152ea559a168bbcbb5e2''
   \<and> Parse ''swh:1:cnt:94a9ed024d3859793618152ea559a168bbcbb5e2;origin=https://example.com;origin=https://example.org''
     = Inr \<lparr>IdScheme = ''swh'', IdVersion = 1, ObjectType = ''cnt'',
            ObjectHash = ''94a9ed024d3859793618152ea559a168bbcbb5e2'',
            Qualifiers = [''origin'' \<mapsto> ''https://example.org'']\<rparr>
   \<and> range_order [''origin'' \<mapsto> ''https://example.org''] [(''origin'', ''https://example.org'')]
   \<and> String \<lparr>IdScheme = ''swh'', IdVersion = 1, ObjectType = ''cnt'',
            ObjectHash = ''94a9ed024d3859793618152ea559a168bbcbb5e2'',
            Qualifiers = [''origin'' \<mapsto> ''https://example.org'']\<rparr>
         [(''origin'', ''https://example.org'')]
     = ''swh:1:cnt:94a9ed024d3859793618152ea559a168bbcbb5e2;origin=https://example.org''
   \<and> Parse ''swh:1:cnt:94a9ed024d3859793618152ea559a168bbcbb5e2;foo=1;bar=2''
     = Inr \<lparr>IdScheme = ''swh'', IdVersion = 1, ObjectType = ''cnt'',
            ObjectHash = ''94a9ed024d3859793618152ea559a168bbcbb5e2'',
            Qualifiers = [''foo'' \<mapsto> ''1'', ''bar'' \<mapsto> ''2'']\<rparr>
   \<and> range_order [''foo'' \<mapsto> ''1'', ''bar'' \<mapsto> ''2''] [(''bar'', ''2''), (''foo'', ''1'')]
   \<and> String \<lparr>IdScheme = ''swh'', IdVersion = 1, ObjectType = ''cnt'',
            ObjectHash = ''94a9ed024d3859793618152ea559a168bbcbb5e2'',
            Qualifiers = [''foo'' \<mapsto> ''1'', ''bar'' \<mapsto> ''2'']\<rparr>
         [(''bar'', ''2''), (''foo'', ''1'')]
     = ''swh:1:cnt:94a9ed024d3859793618152ea559a168bbcbb5e2;bar=2;foo=1''"
proof -
  have p1: "Parse ''swh:1:cnt:94a9ed024d3859793618152ea559a168bbcbb5e2;''
     = Inr \<lparr>IdScheme = ''swh'', IdVersion = 1, ObjectType = ''cnt'',
            ObjectHash = ''94a9ed024d3859793618152ea559a168bbcbb5e2'', Qualifiers = Map.empty\<rparr>"
    by (simp add: Parse_nonempty Let_def)
  have p2: "Parse ''swh:1:cnt:94a9ed024d3859793618152ea559a168bbcbb5e2;origin=https://example.com;origin=https://example.org''
     = Inr \<lparr>IdScheme = ''swh'', IdVersion = 1, ObjectType = ''cnt'',
            ObjectHash = ''94a9ed024d3859793618152ea559a168bbcbb5e2'',
            Qualifiers = [''origin'' \<mapsto> ''https://example.org'']\<rparr>"
    by (simp add: Parse_nonempty Let_def Index_def decodeQualifierValue_def QueryUnescape_def)
  have p3: "Parse ''swh:1:cnt:94a9ed024d3859793618152ea559a168bbcbb5e2;foo=1;bar=2''
     = Inr \<lparr>IdScheme = ''swh'', IdVersion = 1, ObjectType = ''cnt'',
            ObjectHash = ''94a9ed024d3859793618152ea559a168bbcbb5e2'',
            Qualifiers = [''foo'' \<mapsto> ''1'', ''bar'' \<mapsto> ''2'']\<rparr>"
    by (simp add: Parse_nonempty Let_def Index_def decodeQualifierValue_def QueryUnescape_def)
  have r: "range_order Map.empty []"
    "range_order [''origin'' \<mapsto> ''https://example.org''] [(''origin'', ''https://example.org'')]"
    "range_order [''foo'' \<mapsto> ''1'', ''bar'' \<mapsto> ''2''] [(''bar'', ''2''), (''foo'', ''1'')]"
    by (simp_all add: range_order_def)
  have s1: "String \<lparr>IdScheme = ''swh'', IdVersion = 1, ObjectType = ''cnt'',
            ObjectHash = ''94a9ed024d3859793618152ea559a168bbcbb5e2'', Qualifiers = Map.empty\<rparr> []
     = ''swh:1:cnt:94a9ed024d3859793618152ea559a168bbcbb5e2''"
    by (simp add: String_def CoreSWHID_def Itoa_1)
  have s2: "String \<lparr>IdScheme = ''swh'', IdVersion = 1, ObjectType = ''cnt'',
            ObjectHash = ''94a9ed024d3859793618152ea559a168bbcbb5e2'',
            Qualifiers = [''origin'' \<mapsto> ''https://example.org'']\<rparr>
         [(''origin'', ''https://example.org'')]
     = ''swh:1:cnt:94a9ed024d3859793618152ea559a168bbcbb5e2;origin=https://example.org''"
    by (simp add: String_def CoreSWHID_def Itoa_1 formatQualifiers_def canonicalQualifierOrder_def
        encodeQualifierValue_def ReplaceAll_def)
  have s3: "String \<lparr>IdScheme = ''swh'', IdVersion = 1, ObjectType = ''cnt'',
            ObjectHash = ''94a9ed024d3859793618152ea559a168bbcbb5e2'',
            Qualifiers = [''foo'' \<mapsto> ''1'', ''bar'' \<mapsto> ''2'']\<rparr>
         [(''bar'', ''2''), (''foo'', ''1'')]
     = ''swh:1:cnt:94a9ed024d3859793618152ea559a168bbcbb5e2;bar=2;foo=1''"
    by (simp add: String_def CoreSWHID_def Itoa_1 formatQualifiers_def canonicalQualifierOrder_def
        encodeQualifierValue_def ReplaceAll_def)
  show ?thesis
    by (intro conjI) (rule p1 p2 p3 r s1 s2 s3)+
qed


section \<open>The tagger line and the message of a release\<close>

lemma Split_append_sep: "Split (a @ sep # b) sep = Split a sep @ Split b sep"
proof (induction a)
  case Nil
  then show ?case by simp
next
  case (Cons c a)
  obtain x xs where sp: "Split a sep = x # xs"
    using Split_not_Nil[of a sep] by (cases "Split a sep") auto
  show ?case using Cons sp by simp
qed

lemma Split_append_no_sep:
  "sep \<notin> set p \<Longrightarrow> Split (p @ x) sep = (p @ hd (Split x sep)) # tl (Split x sep)"
proof (induction p)
  case Nil
  then show ?case using Split_not_Nil[of x sep] by simp
next
  case (Cons c p)
  then show ?case by auto
qed

lemma tagger_free_append:
  "tagger_free (a @ CHR ''\<newline>'' # b) \<longleftrightarrow> tagger_free a \<and> tagger_free b"
  by (auto simp: tagger_free_def Split_append_sep)

lemma tagger_free_Nil: "tagger_free []"
  by (simp add: tagger_free_def)

lemma tagger_free_Join:
  "ls \<noteq> [] \<Longrightarrow> (\<forall>l \<in> set ls. tagger_free l) \<Longrightarrow> tagger_free (Join ls [CHR ''\<newline>''])"
proof (induction ls)
  case Nil
  then show ?case by simp
next
  case (Cons x xs)
  show ?case
  proof (cases xs)
    case Nil
    then show ?thesis using Cons.prems by simp
  next
    case (Cons y ys)
    then have "tagger_free (Join xs [CHR ''\<newline>''])"
      using Cons.IH Cons.prems by simp
    then show ?thesis
      using Cons Cons.prems by (simp add: tagger_free_append)
  qed
qed

lemma continuation_lines:
  "l \<in> set (tl (Split (escapeNewlines v) CHR ''\<newline>'')) \<Longrightarrow> \<exists>r. l = CHR '' '' # r"
proof (induction v arbitrary: l)
  case Nil
  then show ?case by (simp add: escapeNewlines_def ReplaceAll_def)
next
  case (Cons c v)
  let ?S = "Split (escapeNewlines v) CHR ''\<newline>''"
  obtain x xs where sp: "?S = x # xs"
    using Split_not_Nil[of "escapeNewlines v"] by (cases ?S) auto
  have unfold: "escapeNewlines (c # v) =
      (if c = CHR ''\<newline>'' then [CHR ''\<newline>'', CHR '' ''] else [c]) @ escapeNewlines v"
    by (simp add: escapeNewlines_def ReplaceAll_def)
  show ?case
  proof (cases "c = CHR ''\<newline>''")
    case True
    then have "Split (escapeNewlines (c # v)) CHR ''\<newline>'' = [] # (CHR '' '' # x) # xs"
      using unfold sp by simp
    then show ?thesis using Cons.prems Cons.IH sp by auto
  next
    case False
    then have "Split (escapeNewlines (c # v)) CHR ''\<newline>'' = (c # x) # xs"
      using unfold sp by simp
    then show ?thesis using Cons.prems Cons.IH sp by auto
  qed
qed

text \<open>A header line: a prefix without newline, then an escaped value.\<close>

lemma tagger_free_header:
  assumes "CHR ''\<newline>'' \<notin> set p" and "\<And>w. \<not> prefix ''tagger'' (p @ w)"
  shows "tagger_free (p @ escapeNewlines v)"
proof -
  have "\<not> prefix ''tagger'' l" if "l \<in> set (tl (Split (escapeNewlines v) CHR ''\<newline>''))" for l
    using continuation_lines[OF that] by auto
  then show ?thesis
    using assms by (auto simp: tagger_free_def Split_append_no_sep)
qed

lemma prefix_tagger_key:
  assumes "\<not> prefix ''tagger'' key"
  shows "\<not> prefix ''tagger'' ((key @ '' '') @ w)"
proof
  assume "prefix ''tagger'' ((key @ '' '') @ w)"
  then have "prefix ''tagger'' (key @ CHR '' '' # w)" by simp
  then obtain us where us: "''tagger'' = key @ us" "prefix us (CHR '' '' # w)"
    using assms by (auto simp: prefix_append)
  have "us \<noteq> []" using us(1) assms by auto
  then obtain r where "us = CHR '' '' # r"
    using us(2) by (cases us) auto
  then have "CHR '' '' \<in> set ''tagger''" using us(1) by (metis in_set_conv_decomp)
  then show False by simp
qed


lemma tagger_free_plain:
  assumes "CHR ''\<newline>'' \<notin> set p" and "\<And>w. \<not> prefix ''tagger'' (p @ w)"
  shows "tagger_free p"
  using tagger_free_header[OF assms, of "[]"] by (simp add: escapeNewlines_def ReplaceAll_def)

lemma GitType_no_newline: "CHR ''\<newline>'' \<notin> set (GitType t)"
  by (simp add: GitType_def)

lemma releaseLines_no_author:
  "ReleaseAuthor meta = [] \<Longrightarrow>
   releaseLines meta =
     [''object '' @ Hash (ReleaseTarget meta), ''type '' @ GitType (ReleaseTarget meta),
      ''tag '' @ escapeNewlines (ReleaseName meta)]
     @ map (\<lambda>header. formatHeaderLine (fst header) (snd header)) (ReleaseExtraHeaders meta)"
  by (simp add: releaseLines_def Let_def)

lemma serializeRelease_tagger_free:
  assumes "ReleaseAuthor meta = []"
    and "CHR ''\<newline>'' \<notin> set (Hash (ReleaseTarget meta))"
    and "\<forall>header \<in> set (ReleaseExtraHeaders meta).
           CHR ''\<newline>'' \<notin> set (fst header) \<and> \<not> prefix ''tagger'' (fst header)"
    and "tagger_free (ReleaseMessage meta)"
  shows "tagger_free (serializeRelease meta)"
proof -
  have l1: "tagger_free (''object '' @ Hash (ReleaseTarget meta))"
    using assms(2) by (intro tagger_free_plain) auto
  have l2: "tagger_free (''type '' @ GitType (ReleaseTarget meta))"
    using GitType_no_newline by (intro tagger_free_plain) auto
  have l3: "tagger_free (''tag '' @ escapeNewlines (ReleaseName meta))"
    by (intro tagger_free_header) auto
  have l4: "tagger_free (formatHeaderLine (fst header) (snd header))"
    if "header \<in> set (ReleaseExtraHeaders meta)" for header
  proof -
    have nl: "CHR ''\<newline>'' \<notin> set (fst header @ '' '')" and np: "\<not> prefix ''tagger'' (fst header)"
      using assms(3) that by auto
    have "tagger_free ((fst header @ '' '') @ escapeNewlines (snd header))"
      using nl prefix_tagger_key[OF np] by (intro tagger_free_header) auto
    then show ?thesis by (simp add: formatHeaderLine_def Let_def)
  qed
  have all: "\<forall>l \<in> set (releaseLines meta). tagger_free l"
    using l1 l2 l3 l4 by (auto simp: releaseLines_no_author[OF assms(1)])
  have "releaseLines meta \<noteq> []" by (simp add: releaseLines_no_author[OF assms(1)])
  then have J: "tagger_free (Join (releaseLines meta) [CHR ''\<newline>''])"
    using all by (rule tagger_free_Join)
  have tail: "tagger_free ([] @ CHR ''\<newline>'' # ReleaseMessage meta)"
    unfolding tagger_free_append using assms(4) tagger_free_Nil by simp
  show ?thesis
  proof (cases "ReleaseMessage meta = []")
    case True
    then show ?thesis
      using J tagger_free_Nil tagger_free_append[of "Join (releaseLines meta) [CHR ''\<newline>'']" "[]"]
      by (simp add: serializeRelease_def Let_def)
  next
    case False
    then show ?thesis
      using J tail
        tagger_free_append[of "Join (releaseLines meta) [CHR ''\<newline>'']" "CHR ''\<newline>'' # ReleaseMessage meta"]
      by (simp add: serializeRelease_def Let_def)
  qed
qed

text \<open>
  C6 (as amended): for every release metadata whose author is empty the encoder
  writes no tagger header: the header lines are the object line, the type line and
  the tag line, followed by the extra headers. The serialization then has no line
  beginning with \<open>tagger\<close> provided no other field supplies one: the target hash
  has no newline, no key of an extra header has a newline or begins with \<open>tagger\<close>,
  and no line of the message begins with \<open>tagger\<close>. For every release metadata whose
  message is empty the serialization ends with the newline after the last header line.
\<close>

theorem release_without_tagger:
  "(ReleaseAuthor meta = [] \<longrightarrow>
      releaseLines meta =
        [''object '' @ Hash (ReleaseTarget meta), ''type '' @ GitType (ReleaseTarget meta),
         ''tag '' @ escapeNewlines (ReleaseName meta)]
        @ map (\<lambda>header. formatHeaderLine (fst header) (snd header)) (ReleaseExtraHeaders meta))
   \<and> (ReleaseAuthor meta = [] \<longrightarrow>
        CHR ''\<newline>'' \<notin> set (Hash (ReleaseTarget meta)) \<longrightarrow>
        (\<forall>header \<in> set (ReleaseExtraHeaders meta).
            CHR ''\<newline>'' \<notin> set (fst header) \<and> \<not> prefix ''tagger'' (fst header)) \<longrightarrow>
        tagger_free (ReleaseMessage meta) \<longrightarrow>
        tagger_free (serializeRelease meta))
   \<and> (ReleaseMessage meta = [] \<longrightarrow>
        serializeRelease meta = Join (releaseLines meta) [CHR ''\<newline>''] @ [CHR ''\<newline>''])"
proof (intro conjI impI)
  assume "ReleaseAuthor meta = []"
  then show "releaseLines meta =
        [''object '' @ Hash (ReleaseTarget meta), ''type '' @ GitType (ReleaseTarget meta),
         ''tag '' @ escapeNewlines (ReleaseName meta)]
        @ map (\<lambda>header. formatHeaderLine (fst header) (snd header)) (ReleaseExtraHeaders meta)"
    by (rule releaseLines_no_author)
next
  assume "ReleaseAuthor meta = []" "CHR ''\<newline>'' \<notin> set (Hash (ReleaseTarget meta))"
    "\<forall>header \<in> set (ReleaseExtraHeaders meta).
            CHR ''\<newline>'' \<notin> set (fst header) \<and> \<not> prefix ''tagger'' (fst header)"
    "tagger_free (ReleaseMessage meta)"
  then show "tagger_free (serializeRelease meta)"
    by (rule serializeRelease_tagger_free)
next
  assume "ReleaseMessage meta = []"
  then show "serializeRelease meta = Join (releaseLines meta) [CHR ''\<newline>''] @ [CHR ''\<newline>'']"
    by (simp add: serializeRelease_def Let_def)
qed

text \<open>The metadata of the repository's test \<^verbatim>\<open>TestReleaseWithoutTagger\<close>, with and without its message.\<close>

theorem release_without_tagger_witness:
  "ReleaseAuthor \<lparr>ReleaseName = ''v0.1.0'',
       ReleaseTarget = \<lparr>Hash = ''4b825dc642cb6eb9a060e54bf8d69288fbee4904'',
                        ReleaseTargetType = TargetTypeRevision\<rparr>,
       ReleaseAuthor = [], ReleaseAuthorTimestamp = 0, ReleaseAuthorTimezone = [],
       ReleaseMessage = ''Early release\<newline>'', ReleaseExtraHeaders = []\<rparr> = []
   \<and> Split (serializeRelease \<lparr>ReleaseName = ''v0.1.0'',
       ReleaseTarget = \<lparr>Hash = ''4b825dc642cb6eb9a060e54bf8d69288fbee4904'',
                        ReleaseTargetType = TargetTypeRevision\<rparr>,
       ReleaseAuthor = [], ReleaseAuthorTimestamp = 0, ReleaseAuthorTimezone = [],
       ReleaseMessage = ''Early release\<newline>'', ReleaseExtraHeaders = []\<rparr>) CHR ''\<newline>''
     = [''object 4b825dc642cb6eb9a060e54bf8d69288fbee4904'', ''type commit'', ''tag v0.1.0'',
        [], ''Early release'', []]
   \<and> tagger_free (serializeRelease \<lparr>ReleaseName = ''v0.1.0'',
       ReleaseTarget = \<lparr>Hash = ''4b825dc642cb6eb9a060e54bf8d69288fbee4904'',
                        ReleaseTargetType = TargetTypeRevision\<rparr>,
       ReleaseAuthor = [], ReleaseAuthorTimestamp = 0, ReleaseAuthorTimezone = [],
       ReleaseMessage = ''Early release\<newline>'', ReleaseExtraHeaders = []\<rparr>)
   \<and> serializeRelease \<lparr>ReleaseName = ''v0.1.0'',
       ReleaseTarget = \<lparr>Hash = ''4b825dc642cb6eb9a060e54bf8d69288fbee4904'',
                        ReleaseTargetType = TargetTypeRevision\<rparr>,
       ReleaseAuthor = [], ReleaseAuthorTimestamp = 0, ReleaseAuthorTimezone = [],
       ReleaseMessage = [], ReleaseExtraHeaders = []\<rparr>
     = ''object 4b825dc642cb6eb9a060e54bf8d69288fbee4904\<newline>type commit\<newline>tag v0.1.0\<newline>''"
proof -
  let ?m = "\<lparr>ReleaseName = ''v0.1.0'',
       ReleaseTarget = \<lparr>Hash = ''4b825dc642cb6eb9a060e54bf8d69288fbee4904'',
                        ReleaseTargetType = TargetTypeRevision\<rparr>,
       ReleaseAuthor = [], ReleaseAuthorTimestamp = 0, ReleaseAuthorTimezone = [],
       ReleaseMessage = ''Early release\<newline>'', ReleaseExtraHeaders = []\<rparr>"
  let ?e = "\<lparr>ReleaseName = ''v0.1.0'',
       ReleaseTarget = \<lparr>Hash = ''4b825dc642cb6eb9a060e54bf8d69288fbee4904'',
                        ReleaseTargetType = TargetTypeRevision\<rparr>,
       ReleaseAuthor = [], ReleaseAuthorTimestamp = 0, ReleaseAuthorTimezone = [],
       ReleaseMessage = [], ReleaseExtraHeaders = []\<rparr>"
  have h1: "ReleaseAuthor ?m = []" by simp
  have h2: "CHR ''\<newline>'' \<notin> set (Hash (ReleaseTarget ?m))" by simp
  have h3: "\<forall>header \<in> set (ReleaseExtraHeaders ?m).
            CHR ''\<newline>'' \<notin> set (fst header) \<and> \<not> prefix ''tagger'' (fst header)" by simp
  have h4: "tagger_free (ReleaseMessage ?m)" by (simp add: tagger_free_def)
  have h5: "ReleaseMessage ?e = []" by simp
  have lines: "Split (serializeRelease ?m) CHR ''\<newline>''
     = [''object 4b825dc642cb6eb9a060e54bf8d69288fbee4904'', ''type commit'', ''tag v0.1.0'',
        [], ''Early release'', []]"
    by code_simp
  have free: "tagger_free (serializeRelease ?m)"
    using release_without_tagger[of ?m] h1 h2 h3 h4 by blast
  have "serializeRelease ?e = Join (releaseLines ?e) [CHR ''\<newline>''] @ [CHR ''\<newline>'']"
    using release_without_tagger[of ?e] h5 by blast
  also have "\<dots> = ''object 4b825dc642cb6eb9a060e54bf8d69288fbee4904\<newline>type commit\<newline>tag v0.1.0\<newline>''"
    by code_simp
  finally show ?thesis using h1 lines free by blast
qed

text \<open>
  C6 as stated fails where another field supplies such a line: with an empty author
  and the message \<open>tagger unknown\<close>, the fifth line of the serialization begins
  with \<open>tagger\<close>.
\<close>

theorem tagger_line_counterexample:
  "ReleaseAuthor \<lparr>ReleaseName = ''v0.1.0'',
       ReleaseTarget = \<lparr>Hash = ''4b825dc642cb6eb9a060e54bf8d69288fbee4904'',
                        ReleaseTargetType = TargetTypeRevision\<rparr>,
       ReleaseAuthor = [], ReleaseAuthorTimestamp = 0, ReleaseAuthorTimezone = [],
       ReleaseMessage = ''tagger unknown\<newline>'', ReleaseExtraHeaders = []\<rparr> = []
   \<and> Split (serializeRelease \<lparr>ReleaseName = ''v0.1.0'',
       ReleaseTarget = \<lparr>Hash = ''4b825dc642cb6eb9a060e54bf8d69288fbee4904'',
                        ReleaseTargetType = TargetTypeRevision\<rparr>,
       ReleaseAuthor = [], ReleaseAuthorTimestamp = 0, ReleaseAuthorTimezone = [],
       ReleaseMessage = ''tagger unknown\<newline>'', ReleaseExtraHeaders = []\<rparr>) CHR ''\<newline>''
     = [''object 4b825dc642cb6eb9a060e54bf8d69288fbee4904'', ''type commit'', ''tag v0.1.0'',
        [], ''tagger unknown'', []]
   \<and> prefix ''tagger'' ''tagger unknown''"
  by code_simp

end
